theory Spec2Isabelle
  imports Main "HOL-Library.Char_ord" "HOL-Library.List_Lexorder" "HOL-Library.Signed_Division"
begin

section \<open>The OCI metrics datasource (datasource.go)\<close>

text \<open>
  A shallow embedding of \<^verbatim>\<open>datasource.go\<close>. The vendor SDK (clients, configuration
  providers, the five remote calls) is outside the program: it is a record of functions
  over an arbitrary cloud state \<open>'s\<close>. Every call the datasource issues is appended to
  a trace, so that "which calls were made" is a value. Pointers that the code
  dereferences are options, and a nil dereference, an index out of range and
  \<^verbatim>\<open>panic(err)\<close> are the error \<open>Panic\<close>. Loops that the code does not bound
  (the compartment paging loop and the name-resolution loop) are partial functions into
  \<open>option\<close>: \<open>None\<close> means that the call never returns.
\<close>

subsection \<open>Errors\<close>

text \<open>\<^verbatim>\<open>errors.New(msg)\<close>, \<^verbatim>\<open>errors.Wrap(err, msg)\<close> for a non-nil
  \<^verbatim>\<open>err\<close>, and run-time panics. The dumps (\<^verbatim>\<open>spew.Sdump\<close>) that the code
  splices into its messages are left out of the message text.\<close>

datatype error = New string | Wrap error string | Panic string

subsection \<open>Requests of the host\<close>

text \<open>The decoded \<^verbatim>\<open>ModelJson\<close> of a query: the fields of
  \<^verbatim>\<open>GrafanaCommonRequest\<close>, \<^verbatim>\<open>GrafanaOCIRequest\<close> and
  \<^verbatim>\<open>GrafanaSearchRequest\<close> together (each handler reads its own subset; the
  result of \<^verbatim>\<open>json.Unmarshal\<close> is never checked).\<close>

record GrafanaRequest =
  ts_Compartment :: string
  ts_Environment :: string
  ts_QueryType :: string
  ts_Region :: string
  ts_TenancyOCID :: string
  ts_Query :: string
  ts_Resolution :: string
  ts_Namespace :: string
  ts_ResourceGroup :: string
  ts_Metric :: string

record DatasourceQuery =
  RefId :: string
  ModelJson :: GrafanaRequest

record DatasourceRequest =
  Queries :: "DatasourceQuery list"
  FromEpochMs :: int
  ToEpochMs :: int

subsection \<open>Responses to the host\<close>

typedecl float64

text \<open>A table row is the list of the \<^verbatim>\<open>StringValue\<close>s of its values (every value the
  code builds has kind \<^verbatim>\<open>RowValue_TYPE_STRING\<close>).\<close>

type_synonym TableRow = "string list"

record Table =
  Columns :: "string list"
  Rows :: "TableRow list"

record TimeSeries =
  Name :: string
  Points :: "(int \<times> float64) list"

record QueryResult =
  qr_RefId :: string
  Error :: string
  Series :: "TimeSeries list"
  Tables :: "Table list"

record DatasourceResponse =
  Results :: "QueryResult list"

subsection \<open>The monitoring and identity SDK\<close>

datatype ConfigurationProvider = DefaultConfig | InstancePrincipalConfig

record MonitoringClient =
  mc_config :: "ConfigurationProvider option"
  mc_region :: string

record IdentityClient =
  ic_config :: "ConfigurationProvider option"
  ic_region :: string

record ListMetricsDetails =
  lmd_Name :: "string option"
  lmd_Namespace :: "string option"
  lmd_ResourceGroup :: "string option"
  lmd_GroupBy :: "string list"

record ListMetricsRequest =
  lm_CompartmentId :: "string option"
  lm_ListMetricsDetails :: ListMetricsDetails
  lm_Page :: "string option"

text \<open>A Go map that the code ranges over once is an association list: its order is the
  order in which that range statement happens to visit the keys.\<close>

record Metric =
  m_Name :: "string option"
  m_Namespace :: "string option"
  m_ResourceGroup :: "string option"
  m_Dimensions :: "(string \<times> string) list"

record ListMetricsResponse =
  lm_RawResponse :: "int option"
  lm_Items :: "Metric list"
  lm_OpcNextPage :: "string option"

text \<open>\<^verbatim>\<open>StartTime\<close> and \<^verbatim>\<open>EndTime\<close> are instants, in milliseconds since the
  epoch.\<close>

record SummarizeMetricsDataDetails =
  smd_Query :: "string option"
  smd_Namespace :: "string option"
  smd_Resolution :: "string option"
  smd_StartTime :: int
  smd_EndTime :: int
  smd_ResourceGroup :: "string option"

record SummarizeMetricsDataRequest =
  sm_CompartmentId :: "string option"
  sm_SummarizeMetricsDataDetails :: SummarizeMetricsDataDetails

record AggregatedDatapoint =
  dp_Timestamp :: "int option"
  dp_Value :: "float64 option"

record MetricData =
  md_Name :: "string option"
  md_Dimensions :: "(string \<times> string) list"
  md_AggregatedDatapoints :: "AggregatedDatapoint list"

record SummarizeMetricsDataResponse =
  sm_Items :: "MetricData list"

datatype LifecycleState = Creating | Active | Inactive | Deleting | Deleted

record Compartment =
  c_Id :: "string option"
  c_CompartmentId :: "string option"
  c_Name :: "string option"
  c_LifecycleState :: LifecycleState

record ListCompartmentsRequest =
  lc_CompartmentId :: "string option"
  lc_Page :: "string option"
  lc_AccessLevel :: string
  lc_CompartmentIdInSubtree :: "bool option"

record ListCompartmentsResponse =
  lc_Items :: "Compartment list"
  lc_OpcNextPage :: "string option"

record GetTenancyResponse =
  gt_Name :: "string option"

record ListRegionsResponse =
  lr_Items :: "string option list"

text \<open>The SDK. \<^verbatim>\<open>ListMetrics\<close> returns its response together with its error, since
  \<^verbatim>\<open>testResponse\<close> reads the response whatever the error is; the other calls return one
  or the other.\<close>

record 's sdk =
  StringToRegion :: "string \<Rightarrow> string"
  InstancePrincipalConfigurationProvider :: "error + ConfigurationProvider"
  NewMonitoringClientWithConfigurationProvider :: "ConfigurationProvider \<Rightarrow> error + MonitoringClient"
  NewIdentityClientWithConfigurationProvider :: "ConfigurationProvider \<Rightarrow> error + IdentityClient"
  ListMetrics :: "MonitoringClient \<Rightarrow> ListMetricsRequest \<Rightarrow> 's \<Rightarrow> (ListMetricsResponse \<times> error option) \<times> 's"
  SummarizeMetricsData :: "MonitoringClient \<Rightarrow> SummarizeMetricsDataRequest \<Rightarrow> 's \<Rightarrow> (error + SummarizeMetricsDataResponse) \<times> 's"
  GetTenancy :: "IdentityClient \<Rightarrow> string \<Rightarrow> 's \<Rightarrow> (error + GetTenancyResponse) \<times> 's"
  ListCompartments :: "IdentityClient \<Rightarrow> ListCompartmentsRequest \<Rightarrow> 's \<Rightarrow> (error + ListCompartmentsResponse) \<times> 's"
  ListRegions :: "IdentityClient \<Rightarrow> 's \<Rightarrow> (error + ListRegionsResponse) \<times> 's"

datatype event =
    NewMonitoringClient ConfigurationProvider
  | NewIdentityClient ConfigurationProvider
  | ListMetricsCall MonitoringClient ListMetricsRequest
  | SummarizeMetricsDataCall MonitoringClient SummarizeMetricsDataRequest
  | GetTenancyCall IdentityClient string
  | ListCompartmentsCall IdentityClient ListCompartmentsRequest
  | ListRegionsCall IdentityClient

record 's world =
  cloud :: 's
  trace :: "event list"

subsection \<open>The datasource\<close>

text \<open>Instants of \<^verbatim>\<open>time.Time\<close> are nanoseconds since the zero time, so that
  \<^verbatim>\<open>IsZero\<close> is equality with 0. \<^verbatim>\<open>Sub\<close> saturates at the bounds of
  \<^verbatim>\<open>time.Duration\<close> (an int64 of nanoseconds).\<close>

type_synonym time = int

definition IsZero :: "time \<Rightarrow> bool" where
  "IsZero t = (t = 0)"

definition Sub :: "time \<Rightarrow> time \<Rightarrow> int" where
  "Sub t u = max (- (2 ^ 63)) (min (2 ^ 63 - 1) (t - u))"

definition cacheRefreshTime :: int where
  "cacheRefreshTime = 60 * 1000000000"

record OCIDatasource =
  metricsClient :: MonitoringClient
  identityClient :: IdentityClient
  config :: "ConfigurationProvider option"
  nameToOCID :: "string \<rightharpoonup> string"
  timeCacheUpdated :: time

definition NewOCIDatasource :: OCIDatasource where
  "NewOCIDatasource =
     \<lparr>metricsClient = \<lparr>mc_config = None, mc_region = []\<rparr>,
      identityClient = \<lparr>ic_config = None, ic_region = []\<rparr>,
      config = None,
      nameToOCID = Map.empty,
      timeCacheUpdated = 0\<rparr>"

text \<open>Reading a Go map at a key it does not hold gives the zero value.\<close>

definition go_lookup :: "(string \<rightharpoonup> string) \<Rightarrow> string \<Rightarrow> string" where
  "go_lookup m k = (case m k of Some v \<Rightarrow> v | None \<Rightarrow> [])"

text \<open>\<^verbatim>\<open>for k, v := range m\<close>, visiting the keys in the order \<open>ks\<close>.\<close>

definition range_map :: "('k \<rightharpoonup> 'v) \<Rightarrow> 'k list \<Rightarrow> ('k \<times> 'v) list" where
  "range_map m ks = List.map_filter (\<lambda>k. map_option (Pair k) (m k)) ks"

subsection \<open>searchHelper\<close>

definition MAX_PAGES_TO_FETCH :: nat where
  "MAX_PAGES_TO_FETCH = 20"

text \<open>The loop of \<^verbatim>\<open>searchHelper\<close>; its variables are \<open>items\<close>, \<open>page\<close> and
  \<open>pageNumber\<close>.\<close>

function searchHelper_loop ::
  "'s sdk \<Rightarrow> string \<Rightarrow> string \<Rightarrow> ListMetricsDetails \<Rightarrow> Metric list \<Rightarrow> string option \<Rightarrow> nat \<Rightarrow>
   OCIDatasource \<Rightarrow> 's world \<Rightarrow> (error + Metric list) \<times> OCIDatasource \<times> 's world" where
  "searchHelper_loop sdk region compartment metricDetails items page pageNumber o1 w =
     (let o2 = o1\<lparr>metricsClient := (metricsClient o1)\<lparr>mc_region := StringToRegion sdk region\<rparr>\<rparr>;
          req = \<lparr>lm_CompartmentId = Some compartment,
                 lm_ListMetricsDetails = metricDetails,
                 lm_Page = page\<rparr>;
          r = ListMetrics sdk (metricsClient o2) req (cloud w);
          w2 = \<lparr>cloud = snd r, trace = trace w @ [ListMetricsCall (metricsClient o2) req]\<rparr>
      in case snd (fst r) of
           Some err \<Rightarrow> (Inl (Wrap err ''list metrircs failed''), o2, w2)
         | None \<Rightarrow>
             if lm_OpcNextPage (fst (fst r)) = None \<or> pageNumber \<ge> MAX_PAGES_TO_FETCH
             then (Inr (items @ lm_Items (fst (fst r))), o2, w2)
             else searchHelper_loop sdk region compartment metricDetails
                    (items @ lm_Items (fst (fst r))) (lm_OpcNextPage (fst (fst r)))
                    (pageNumber + 1) o2 w2)"
  by pat_completeness auto
termination
  by (relation "measure (\<lambda>(sdk, region, compartment, metricDetails, items, page, pageNumber, o1, w).
        MAX_PAGES_TO_FETCH - pageNumber)") auto

declare searchHelper_loop.simps [simp del]

definition searchHelper ::
  "'s sdk \<Rightarrow> string \<Rightarrow> string \<Rightarrow> ListMetricsDetails \<Rightarrow> OCIDatasource \<Rightarrow> 's world \<Rightarrow>
   (error + Metric list) \<times> OCIDatasource \<times> 's world" where
  "searchHelper sdk region compartment metricDetails o1 w =
     searchHelper_loop sdk region compartment metricDetails [] None 0 o1 w"


subsection \<open>Lookup responders\<close>

text \<open>The loops \<^verbatim>\<open>rows = append(rows, row(*(item.f)))\<close>: a nil field panics.\<close>

fun appendRows :: "('a \<Rightarrow> string option) \<Rightarrow> 'a list \<Rightarrow> TableRow list \<Rightarrow> error + TableRow list" where
  "appendRows f [] rows = Inr rows"
| "appendRows f (item # items) rows =
     (case f item of
        None \<Rightarrow> Inl (Panic ''nil pointer dereference'')
      | Some v \<Rightarrow> appendRows f items (rows @ [[v]]))"

definition lookupResponse :: "string \<Rightarrow> string list \<Rightarrow> TableRow list \<Rightarrow> DatasourceResponse" where
  "lookupResponse refId columns rows =
     \<lparr>Results = [\<lparr>qr_RefId = refId, Error = [], Series = [],
                   Tables = [\<lparr>Columns = columns, Rows = rows\<rparr>]\<rparr>]\<rparr>"

definition dimensionResponse_reqDetails :: "GrafanaRequest \<Rightarrow> ListMetricsDetails" where
  "dimensionResponse_reqDetails ts =
     \<lparr>lmd_Name = Some (ts_Metric ts),
      lmd_Namespace = Some (ts_Namespace ts),
      lmd_ResourceGroup =
        (if ts_ResourceGroup ts \<noteq> ''NoResourceGroup'' then Some (ts_ResourceGroup ts) else None),
      lmd_GroupBy = []\<rparr>"

definition dimensionRows :: "Metric list \<Rightarrow> TableRow list" where
  "dimensionRows items =
     concat (map (\<lambda>item. map (\<lambda>(dimension, v). [dimension @ ''='' @ v]) (m_Dimensions item)) items)"

fun dimensionResponse_loop ::
  "'s sdk \<Rightarrow> DatasourceQuery list \<Rightarrow> TableRow list \<Rightarrow> OCIDatasource \<Rightarrow> 's world \<Rightarrow>
   (error + TableRow list) \<times> OCIDatasource \<times> 's world" where
  "dimensionResponse_loop sdk [] rows o1 w = (Inr rows, o1, w)"
| "dimensionResponse_loop sdk (query # queries) rows o1 w =
     (let ts = ModelJson query;
          reqDetails = dimensionResponse_reqDetails ts
      in case searchHelper sdk (ts_Region ts) (ts_Compartment ts) reqDetails o1 w of
           (Inl err, o2, w2) \<Rightarrow> (Inl (Wrap err ''list metrircs failed''), o2, w2)
         | (Inr items, o2, w2) \<Rightarrow> dimensionResponse_loop sdk queries (dimensionRows items) o2 w2)"

definition dimensionResponse ::
  "'s sdk \<Rightarrow> DatasourceRequest \<Rightarrow> OCIDatasource \<Rightarrow> 's world \<Rightarrow>
   (error + DatasourceResponse) \<times> OCIDatasource \<times> 's world" where
  "dimensionResponse sdk tsdbReq o1 w =
     (case dimensionResponse_loop sdk (Queries tsdbReq) [] o1 w of
        (Inl err, o2, w2) \<Rightarrow> (Inl err, o2, w2)
      | (Inr rows, o2, w2) \<Rightarrow> (Inr (lookupResponse ''dimensions'' [''text''] rows), o2, w2))"

definition namespaceResponse_reqDetails :: ListMetricsDetails where
  "namespaceResponse_reqDetails =
     \<lparr>lmd_Name = None, lmd_Namespace = None, lmd_ResourceGroup = None,
      lmd_GroupBy = [''namespace'']\<rparr>"

fun namespaceResponse_loop ::
  "'s sdk \<Rightarrow> DatasourceQuery list \<Rightarrow> TableRow list \<Rightarrow> OCIDatasource \<Rightarrow> 's world \<Rightarrow>
   (error + TableRow list) \<times> OCIDatasource \<times> 's world" where
  "namespaceResponse_loop sdk [] rows o1 w = (Inr rows, o1, w)"
| "namespaceResponse_loop sdk (query # queries) rows o1 w =
     (let ts = ModelJson query;
          reqDetails = namespaceResponse_reqDetails
      in case searchHelper sdk (ts_Region ts) (ts_Compartment ts) reqDetails o1 w of
           (Inl err, o2, w2) \<Rightarrow> (Inl (Wrap err ''list metrircs failed''), o2, w2)
         | (Inr items, o2, w2) \<Rightarrow>
             (case appendRows m_Namespace items [] of
                Inl p \<Rightarrow> (Inl p, o2, w2)
              | Inr rows2 \<Rightarrow> namespaceResponse_loop sdk queries rows2 o2 w2))"

definition namespaceResponse ::
  "'s sdk \<Rightarrow> DatasourceRequest \<Rightarrow> OCIDatasource \<Rightarrow> 's world \<Rightarrow>
   (error + DatasourceResponse) \<times> OCIDatasource \<times> 's world" where
  "namespaceResponse sdk tsdbReq o1 w =
     (case namespaceResponse_loop sdk (Queries tsdbReq) [] o1 w of
        (Inl err, o2, w2) \<Rightarrow> (Inl err, o2, w2)
      | (Inr rows, o2, w2) \<Rightarrow> (Inr (lookupResponse ''namespaces'' [''text''] rows), o2, w2))"

definition rows_placeholder :: string where
  "rows_placeholder = ''NoResourceGroup''"

definition resourcegroupsResponse_reqDetails :: "GrafanaRequest \<Rightarrow> ListMetricsDetails" where
  "resourcegroupsResponse_reqDetails ts =
     \<lparr>lmd_Name = None, lmd_Namespace = Some (ts_Namespace ts), lmd_ResourceGroup = None,
      lmd_GroupBy = [''resourceGroup'']\<rparr>"

fun resourcegroupsResponse_loop ::
  "'s sdk \<Rightarrow> DatasourceQuery list \<Rightarrow> TableRow list \<Rightarrow> OCIDatasource \<Rightarrow> 's world \<Rightarrow>
   (error + TableRow list) \<times> OCIDatasource \<times> 's world" where
  "resourcegroupsResponse_loop sdk [] rows o1 w = (Inr rows, o1, w)"
| "resourcegroupsResponse_loop sdk (query # queries) rows o1 w =
     (let ts = ModelJson query;
          reqDetails = resourcegroupsResponse_reqDetails ts
      in case searchHelper sdk (ts_Region ts) (ts_Compartment ts) reqDetails o1 w of
           (Inl err, o2, w2) \<Rightarrow> (Inl (Wrap err ''list metrircs failed''), o2, w2)
         | (Inr items, o2, w2) \<Rightarrow>
             (case appendRows m_ResourceGroup items [[rows_placeholder]] of
                Inl p \<Rightarrow> (Inl p, o2, w2)
              | Inr rows2 \<Rightarrow> resourcegroupsResponse_loop sdk queries rows2 o2 w2))"

definition resourcegroupsResponse ::
  "'s sdk \<Rightarrow> DatasourceRequest \<Rightarrow> OCIDatasource \<Rightarrow> 's world \<Rightarrow>
   (error + DatasourceResponse) \<times> OCIDatasource \<times> 's world" where
  "resourcegroupsResponse sdk tsdbReq o1 w =
     (case resourcegroupsResponse_loop sdk (Queries tsdbReq) [] o1 w of
        (Inl err, o2, w2) \<Rightarrow> (Inl err, o2, w2)
      | (Inr rows, o2, w2) \<Rightarrow> (Inr (lookupResponse ''resourcegroups'' [''text''] rows), o2, w2))"

definition getConfigProvider :: "'s sdk \<Rightarrow> string \<Rightarrow> error + ConfigurationProvider" where
  "getConfigProvider sdk environment =
     (if environment = ''local'' then Inr DefaultConfig
      else if environment = ''OCI Instance'' then InstancePrincipalConfigurationProvider sdk
      else Inl (New ''unknown environment type''))"

definition searchResponse_reqDetails :: "GrafanaRequest \<Rightarrow> ListMetricsDetails" where
  "searchResponse_reqDetails ts =
     \<lparr>lmd_Name = None,
      lmd_Namespace = Some (ts_Namespace ts),
      lmd_ResourceGroup =
        (if ts_ResourceGroup ts \<noteq> ''NoResourceGroup'' then Some (ts_ResourceGroup ts) else None),
      lmd_GroupBy = [''name'']\<rparr>"

text \<open>The loop over \<open>items\<close> of \<^verbatim>\<open>searchResponse\<close>, with its \<open>rows\<close> and its
  \<open>metricCache\<close>.\<close>

fun searchRows :: "Metric list \<Rightarrow> TableRow list \<Rightarrow> (string \<rightharpoonup> bool) \<Rightarrow> error + TableRow list" where
  "searchRows [] rows metricCache = Inr rows"
| "searchRows (item # items) rows metricCache =
     (case m_Name item of
        None \<Rightarrow> Inl (Panic ''nil pointer dereference'')
      | Some name \<Rightarrow>
          (case metricCache name of
             None \<Rightarrow> searchRows items (rows @ [[name]]) (metricCache(name \<mapsto> True))
           | Some ok \<Rightarrow> searchRows items rows metricCache))"

fun searchResponse_loop ::
  "'s sdk \<Rightarrow> DatasourceQuery list \<Rightarrow> TableRow list \<Rightarrow> OCIDatasource \<Rightarrow> 's world \<Rightarrow>
   (error + TableRow list) \<times> OCIDatasource \<times> 's world" where
  "searchResponse_loop sdk [] rows o1 w = (Inr rows, o1, w)"
| "searchResponse_loop sdk (query # queries) rows o1 w =
     (let ts = ModelJson query;
          reqDetails = searchResponse_reqDetails ts
      in case searchHelper sdk (ts_Region ts) (ts_Compartment ts) reqDetails o1 w of
           (Inl err, o2, w2) \<Rightarrow> (Inl (Wrap err ''list metrircs failed''), o2, w2)
         | (Inr items, o2, w2) \<Rightarrow>
             (case searchRows items [] Map.empty of
                Inl p \<Rightarrow> (Inl p, o2, w2)
              | Inr rows2 \<Rightarrow> searchResponse_loop sdk queries rows2 o2 w2))"

definition searchResponse ::
  "'s sdk \<Rightarrow> DatasourceRequest \<Rightarrow> OCIDatasource \<Rightarrow> 's world \<Rightarrow>
   (error + DatasourceResponse) \<times> OCIDatasource \<times> 's world" where
  "searchResponse sdk tsdbReq o1 w =
     (case searchResponse_loop sdk (Queries tsdbReq) [] o1 w of
        (Inl err, o2, w2) \<Rightarrow> (Inl err, o2, w2)
      | (Inr rows, o2, w2) \<Rightarrow> (Inr (lookupResponse ''search'' [''text''] rows), o2, w2))"

fun regionsResponse_loop ::
  "'s sdk \<Rightarrow> DatasourceQuery list \<Rightarrow> TableRow list \<Rightarrow> OCIDatasource \<Rightarrow> 's world \<Rightarrow>
   (error + TableRow list) \<times> OCIDatasource \<times> 's world" where
  "regionsResponse_loop sdk [] rows o1 w = (Inr rows, o1, w)"
| "regionsResponse_loop sdk (query # queries) rows o1 w =
     (let r = ListRegions sdk (identityClient o1) (cloud w);
          w2 = \<lparr>cloud = snd r, trace = trace w @ [ListRegionsCall (identityClient o1)]\<rparr>
      in case fst r of
           Inl err \<Rightarrow> (Inl (Wrap err ''error fetching regions''), o1, w2)
         | Inr res \<Rightarrow>
             (case appendRows (\<lambda>item. item) (lr_Items res) [] of
                Inl p \<Rightarrow> (Inl p, o1, w2)
              | Inr rows2 \<Rightarrow> regionsResponse_loop sdk queries rows2 o1 w2))"

definition regionsResponse ::
  "'s sdk \<Rightarrow> DatasourceRequest \<Rightarrow> OCIDatasource \<Rightarrow> 's world \<Rightarrow>
   (error + DatasourceResponse) \<times> OCIDatasource \<times> 's world" where
  "regionsResponse sdk tsdbReq o1 w =
     (case regionsResponse_loop sdk (Queries tsdbReq) [] o1 w of
        (Inl err, o2, w2) \<Rightarrow> (Inl err, o2, w2)
      | (Inr rows, o2, w2) \<Rightarrow> (Inr (lookupResponse ''regions'' [''text''] rows), o2, w2))"

text \<open>\<^verbatim>\<open>%d\<close> of \<^verbatim>\<open>fmt.Sprintf\<close>: an integer in decimal.\<close>

function natDecimal :: "nat \<Rightarrow> string" where
  "natDecimal n =
     (if n < 10 then [char_of (48 + n)]
      else natDecimal (n div 10) @ [char_of (48 + n mod 10)])"
  by pat_completeness auto
termination
  by (relation "measure (\<lambda>n. n)") auto

declare natDecimal.simps [simp del]

definition Itoa :: "int \<Rightarrow> string" where
  "Itoa i = (if i < 0 then ''-'' @ natDecimal (nat (- i)) else natDecimal (nat i))"

text \<open>\<^verbatim>\<open>testResponse\<close> returns a nil response with a nil error (\<open>Inr None\<close>) when the
  status is not 2xx and the call gave no error: \<^verbatim>\<open>errors.Wrap(nil, _)\<close> is nil. Its
  message is \<^verbatim>\<open>fmt.Sprintf("list metrircs failed %s %d", spew.Sdump(res), status)\<close>, here
  with nothing for the dump.\<close>

definition testResponse ::
  "'s sdk \<Rightarrow> DatasourceRequest \<Rightarrow> OCIDatasource \<Rightarrow> 's world \<Rightarrow>
   (error + DatasourceResponse option) \<times> OCIDatasource \<times> 's world" where
  "testResponse sdk tsdbReq o1 w =
     (case Queries tsdbReq of
        [] \<Rightarrow> (Inl (Panic ''index out of range''), o1, w)
      | query # queries \<Rightarrow>
          (let ts = ModelJson query;
               listMetrics = \<lparr>lm_CompartmentId = Some (ts_TenancyOCID ts),
                              lm_ListMetricsDetails =
                                \<lparr>lmd_Name = None, lmd_Namespace = None,
                                 lmd_ResourceGroup = None, lmd_GroupBy = []\<rparr>,
                              lm_Page = None\<rparr>;
               o2 = o1\<lparr>metricsClient :=
                         (metricsClient o1)\<lparr>mc_region := StringToRegion sdk (ts_Region ts)\<rparr>\<rparr>;
               r = ListMetrics sdk (metricsClient o2) listMetrics (cloud w);
               w2 = \<lparr>cloud = snd r,
                     trace = trace w @ [ListMetricsCall (metricsClient o2) listMetrics]\<rparr>
           in case lm_RawResponse (fst (fst r)) of
                None \<Rightarrow> (Inl (Panic ''nil pointer dereference''), o2, w2)
              | Some status \<Rightarrow>
                  if status \<ge> 200 \<and> status < 300 then (Inr (Some \<lparr>Results = []\<rparr>), o2, w2)
                  else (case snd (fst r) of
                          None \<Rightarrow> (Inr None, o2, w2)
                        | Some err \<Rightarrow>
                            (Inl (Wrap err (''list metrircs failed '' @ '' '' @ Itoa status)),
                             o2, w2))))"


subsection \<open>getCompartments\<close>

text \<open>Go leaves the order in which a range statement visits a map unspecified. The order
  of every such statement over a map that the code builds is an input of the model:
  \<open>resolveOrder n\<close> for the \<open>n\<close>-th pass of the name-resolution loop, \<open>invertOrder\<close>
  for the final loop of \<^verbatim>\<open>getCompartments\<close>, \<open>rowsOrder\<close> for the loop of
  \<^verbatim>\<open>compartmentsResponse\<close> over the cache.\<close>

record RangeOrder =
  resolveOrder :: "nat \<Rightarrow> string list"
  invertOrder :: "string list"
  rowsOrder :: "string list"

text \<open>The loop over \<^verbatim>\<open>res.Items\<close>: an active compartment is recorded in
  \<open>mapFromIdToName\<close> and \<open>mapFromIdToParentCmptId\<close>.\<close>

fun recordActive ::
  "Compartment list \<Rightarrow> (string \<rightharpoonup> string) \<times> (string \<rightharpoonup> string) \<Rightarrow>
   error + (string \<rightharpoonup> string) \<times> (string \<rightharpoonup> string)" where
  "recordActive [] maps = Inr maps"
| "recordActive (compartment # items) (mapFromIdToName, mapFromIdToParentCmptId) =
     (if c_LifecycleState compartment = Active then
        (case (c_Id compartment, c_Name compartment, c_CompartmentId compartment) of
           (Some cid, Some name, Some parent) \<Rightarrow>
             recordActive items
               (mapFromIdToName(cid \<mapsto> name), mapFromIdToParentCmptId(cid \<mapsto> parent))
         | _ \<Rightarrow> Inl (Panic ''nil pointer dereference''))
      else recordActive items (mapFromIdToName, mapFromIdToParentCmptId))"

text \<open>The paging loop over \<^verbatim>\<open>ListCompartments\<close>: it has no page cap.\<close>

partial_function (option) listCompartments_loop ::
  "'s sdk \<Rightarrow> IdentityClient \<Rightarrow> string \<Rightarrow> string option \<Rightarrow>
   (string \<rightharpoonup> string) \<times> (string \<rightharpoonup> string) \<Rightarrow> 's world \<Rightarrow>
   ((error + (string \<rightharpoonup> string) \<times> (string \<rightharpoonup> string)) \<times> 's world) option" where
  "listCompartments_loop sdk client rootCompartment page maps w =
     (let req = \<lparr>lc_CompartmentId = Some rootCompartment, lc_Page = page,
                 lc_AccessLevel = ''ANY'', lc_CompartmentIdInSubtree = Some True\<rparr>;
          r = ListCompartments sdk client req (cloud w);
          w2 = \<lparr>cloud = snd r, trace = trace w @ [ListCompartmentsCall client req]\<rparr>
      in case fst r of
           Inl err \<Rightarrow>
             Some (Inl (Wrap err (''this is what we were trying to get '' @ rootCompartment)), w2)
         | Inr res \<Rightarrow>
             (case recordActive (lc_Items res) maps of
                Inl p \<Rightarrow> Some (Inl p, w2)
              | Inr maps2 \<Rightarrow>
                  (case lc_OpcNextPage res of
                     None \<Rightarrow> Some (Inr maps2, w2)
                   | Some next \<Rightarrow>
                       listCompartments_loop sdk client rootCompartment (Some next) maps2 w2)))"

text \<open>The body of the inner loop of the name resolution, for one entry
  \<open>(cmptId, cmptParentCmptId)\<close> of \<open>mapFromIdToParentCmptId\<close>.\<close>

definition resolve_entry ::
  "(string \<rightharpoonup> string) \<Rightarrow> string \<Rightarrow> (string \<rightharpoonup> string) \<Rightarrow> string \<times> string \<Rightarrow> (string \<rightharpoonup> string)" where
  "resolve_entry mapFromIdToName tenancyOcid mapFromIdToFullCmptName entry =
     (case entry of (cmptId, cmptParentCmptId) \<Rightarrow>
        (case mapFromIdToFullCmptName cmptId of
           Some resolved \<Rightarrow> mapFromIdToFullCmptName
         | None \<Rightarrow>
             if cmptParentCmptId = tenancyOcid
             then mapFromIdToFullCmptName(cmptId \<mapsto> ''/'' @ go_lookup mapFromIdToName cmptId)
             else (case mapFromIdToFullCmptName cmptParentCmptId of
                     Some fullNameOfParentCmpt \<Rightarrow>
                       mapFromIdToFullCmptName
                         (cmptId \<mapsto> fullNameOfParentCmpt @ ''/'' @ go_lookup mapFromIdToName cmptId)
                   | None \<Rightarrow> mapFromIdToFullCmptName)))"

text \<open>One full pass: the inner loop over \<open>mapFromIdToParentCmptId\<close>, in the order \<open>ks\<close>.\<close>

definition resolve_pass ::
  "(string \<rightharpoonup> string) \<Rightarrow> (string \<rightharpoonup> string) \<Rightarrow> string \<Rightarrow> string list \<Rightarrow>
   (string \<rightharpoonup> string) \<Rightarrow> (string \<rightharpoonup> string)" where
  "resolve_pass mapFromIdToName mapFromIdToParentCmptId tenancyOcid ks mapFromIdToFullCmptName =
     foldl (resolve_entry mapFromIdToName tenancyOcid) mapFromIdToFullCmptName
       (range_map mapFromIdToParentCmptId ks)"

text \<open>The outer loop \<^verbatim>\<open>for len(mapFromIdToFullCmptName) < len(mapFromIdToName)\<close>;
  \<open>n\<close> counts the passes made so far.\<close>

partial_function (option) resolve_loop ::
  "(string \<rightharpoonup> string) \<Rightarrow> (string \<rightharpoonup> string) \<Rightarrow> string \<Rightarrow> (nat \<Rightarrow> string list) \<Rightarrow> nat \<Rightarrow>
   (string \<rightharpoonup> string) \<Rightarrow> (string \<rightharpoonup> string) option" where
  "resolve_loop mapFromIdToName mapFromIdToParentCmptId tenancyOcid order n mapFromIdToFullCmptName =
     (if card (dom mapFromIdToFullCmptName) < card (dom mapFromIdToName)
      then resolve_loop mapFromIdToName mapFromIdToParentCmptId tenancyOcid order (Suc n)
             (resolve_pass mapFromIdToName mapFromIdToParentCmptId tenancyOcid (order n)
                mapFromIdToFullCmptName)
      else Some mapFromIdToFullCmptName)"

text \<open>The final loop: \<^verbatim>\<open>m[fullyQualifiedCmptName] = cmptId\<close>.\<close>

definition invert :: "(string \<rightharpoonup> string) \<Rightarrow> string list \<Rightarrow> (string \<rightharpoonup> string)" where
  "invert mapFromIdToFullCmptName ks =
     foldl (\<lambda>m (cmptId, fullyQualifiedCmptName). m(fullyQualifiedCmptName \<mapsto> cmptId))
       Map.empty (range_map mapFromIdToFullCmptName ks)"

definition tenancy_suffix :: string where
  "tenancy_suffix = ''(tenancy, shown as '' @ [CHR 0x27] @ ''/'' @ [CHR 0x27] @ '')''"

definition getCompartments ::
  "'s sdk \<Rightarrow> RangeOrder \<Rightarrow> string \<Rightarrow> string \<Rightarrow> OCIDatasource \<Rightarrow> 's world \<Rightarrow>
   ((error + (string \<rightharpoonup> string)) \<times> OCIDatasource \<times> 's world) option" where
  "getCompartments sdk ro region rootCompartment o1 w =
     (let tenancyOcid = rootCompartment;
          r = GetTenancy sdk (identityClient o1) tenancyOcid (cloud w);
          w2 = \<lparr>cloud = snd r, trace = trace w @ [GetTenancyCall (identityClient o1) tenancyOcid]\<rparr>
      in case fst r of
           Inl err \<Rightarrow> Some (Inl (Wrap err ''This is what we were trying to get  : fetching tenancy name''), o1, w2)
         | Inr resp \<Rightarrow>
             (case gt_Name resp of
                None \<Rightarrow> Some (Inl (Panic ''nil pointer dereference''), o1, w2)
              | Some tenancyName \<Rightarrow>
                  (let o2 = o1\<lparr>identityClient :=
                                (identityClient o1)\<lparr>ic_region := StringToRegion sdk region\<rparr>\<rparr>
                   in case listCompartments_loop sdk (identityClient o2) rootCompartment None
                             ([tenancyOcid \<mapsto> tenancyName], [tenancyOcid \<mapsto> []]) w2 of
                        None \<Rightarrow> None
                      | Some (Inl err, w3) \<Rightarrow> Some (Inl err, o2, w3)
                      | Some (Inr (mapFromIdToName, mapFromIdToParentCmptId), w3) \<Rightarrow>
                          (case resolve_loop mapFromIdToName mapFromIdToParentCmptId tenancyOcid
                                  (resolveOrder ro) 0
                                  [tenancyOcid \<mapsto> go_lookup mapFromIdToName tenancyOcid @ tenancy_suffix] of
                             None \<Rightarrow> None
                           | Some mapFromIdToFullCmptName \<Rightarrow>
                               Some (Inr (invert mapFromIdToFullCmptName (invertOrder ro)), o2, w3)))))"

subsection \<open>compartmentsResponse\<close>

text \<open>\<open>now\<close> is the value of \<^verbatim>\<open>time.Now()\<close>. No statement of the program assigns
  \<open>timeCacheUpdated\<close>.\<close>

definition compartmentsRows :: "(string \<rightharpoonup> string) \<Rightarrow> string list \<Rightarrow> TableRow list" where
  "compartmentsRows m ks = map (\<lambda>(name, cid). [name, cid]) (range_map m ks)"

definition compartmentsResponse ::
  "'s sdk \<Rightarrow> RangeOrder \<Rightarrow> time \<Rightarrow> DatasourceRequest \<Rightarrow> OCIDatasource \<Rightarrow> 's world \<Rightarrow>
   ((error + DatasourceResponse) \<times> OCIDatasource \<times> 's world) option" where
  "compartmentsResponse sdk ro now tsdbReq o1 w =
     (case Queries tsdbReq of
        [] \<Rightarrow> Some (Inl (Panic ''index out of range''), o1, w)
      | query # queries \<Rightarrow>
          (let ts = ModelJson query
           in if IsZero (timeCacheUpdated o1) \<or> Sub now (timeCacheUpdated o1) > cacheRefreshTime
              then (case getCompartments sdk ro (ts_Region ts) (ts_TenancyOCID ts) o1 w of
                      None \<Rightarrow> None
                    | Some (Inl err, o2, w2) \<Rightarrow> Some (Inl err, o2, w2)
                    | Some (Inr m, o2, w2) \<Rightarrow>
                        Some (Inr (lookupResponse ''compartments'' [''text'', ''text'']
                                     (compartmentsRows m (rowsOrder ro))),
                              o2\<lparr>nameToOCID := m\<rparr>, w2))
              else Some (Inr (lookupResponse ''compartments'' [''text'', ''text'']
                                (compartmentsRows (nameToOCID o1) (rowsOrder ro))),
                         o1, w)))"


subsection \<open>queryResponse\<close>

record responseAndQuery =
  ociRes :: SummarizeMetricsDataResponse
  query :: DatasourceQuery
  err :: "error option"

text \<open>\<^verbatim>\<open>err.Error()\<close>: the message of \<^verbatim>\<open>errors.Wrap(err, msg)\<close> is
  \<^verbatim>\<open>msg + ": " + err.Error()\<close>.\<close>

fun error_message :: "error \<Rightarrow> string" where
  "error_message (New msg) = msg"
| "error_message (Wrap cause msg) = msg @ '': '' @ error_message cause"
| "error_message (Panic msg) = msg"

text \<open>\<^verbatim>\<open>regexp.MustCompile(`(?m)\w+Name`).MatchString(key)\<close>: somewhere in \<open>key\<close> a
  word character (\<^verbatim>\<open>[0-9A-Za-z_]\<close>) is followed at once by \<^verbatim>\<open>Name\<close>.\<close>

definition isWordChar :: "char \<Rightarrow> bool" where
  "isWordChar c =
     ((CHR ''0'' \<le> c \<and> c \<le> CHR ''9'') \<or> (CHR ''A'' \<le> c \<and> c \<le> CHR ''Z'') \<or>
      (CHR ''a'' \<le> c \<and> c \<le> CHR ''z'') \<or> c = CHR ''_'')"

fun re_MatchString :: "string \<Rightarrow> bool" where
  "re_MatchString [] = False"
| "re_MatchString (c # cs) = ((isWordChar c \<and> take 4 cs = ''Name'') \<or> re_MatchString cs)"

text \<open>\<^verbatim>\<open>fmt.Sprintf("%s, {%s}", a, b)\<close>.\<close>

definition sprintf_braces :: "string \<Rightarrow> string \<Rightarrow> string" where
  "sprintf_braces a b = a @ '', {'' @ b @ ''}''"

text \<open>The name of the series of one item: the loop over \<^verbatim>\<open>item.Dimensions\<close>, then
  the fallback over the sorted \<open>dimensionKeys\<close>.\<close>

definition seriesName :: "string \<Rightarrow> (string \<times> string) list \<Rightarrow> string" where
  "seriesName itemName dimensions =
     (let tName = foldl (\<lambda>tName (key, dimension).
                           if re_MatchString key then sprintf_braces tName dimension else tName)
                    itemName dimensions;
          dimensionKeys = map fst dimensions
      in if tName = itemName
         then sprintf_braces tName
                (foldl (\<lambda>preDisplayName dimensionKey.
                          if preDisplayName = []
                          then go_lookup (map_of dimensions) dimensionKey
                          else preDisplayName @ '', '' @ go_lookup (map_of dimensions) dimensionKey)
                   [] (sort dimensionKeys))
         else tName)"

text \<open>The loop over \<^verbatim>\<open>item.AggregatedDatapoints\<close>; the timestamp is
  \<^verbatim>\<open>UnixNano() / 1000000\<close>, a division that truncates.\<close>

fun seriesPoints :: "AggregatedDatapoint list \<Rightarrow> (int \<times> float64) list \<Rightarrow> error + (int \<times> float64) list" where
  "seriesPoints [] p = Inr p"
| "seriesPoints (metric # metrics) p =
     (case (dp_Timestamp metric, dp_Value metric) of
        (Some unixNano, Some v) \<Rightarrow> seriesPoints metrics (p @ [(unixNano sdiv 1000000, v)])
      | _ \<Rightarrow> Inl (Panic ''nil pointer dereference''))"

text \<open>The loop over \<^verbatim>\<open>q.ociRes.Items\<close>.\<close>

fun seriesOfItems :: "MetricData list \<Rightarrow> TimeSeries list \<Rightarrow> error + TimeSeries list" where
  "seriesOfItems [] series = Inr series"
| "seriesOfItems (item # items) series =
     (case md_Name item of
        None \<Rightarrow> Inl (Panic ''nil pointer dereference'')
      | Some itemName \<Rightarrow>
          (case seriesPoints (md_AggregatedDatapoints item) [] of
             Inl p \<Rightarrow> Inl p
           | Inr p \<Rightarrow>
               seriesOfItems items
                 (series @ [\<lparr>Name = seriesName itemName (md_Dimensions item), Points = p\<rparr>])))"

definition queryResponse_req :: "DatasourceRequest \<Rightarrow> GrafanaRequest \<Rightarrow> SummarizeMetricsDataDetails" where
  "queryResponse_req tsdbReq ts =
     \<lparr>smd_Query = Some (ts_Query ts),
      smd_Namespace = Some (ts_Namespace ts),
      smd_Resolution = Some (ts_Resolution ts),
      smd_StartTime = FromEpochMs tsdbReq,
      smd_EndTime = ToEpochMs tsdbReq,
      smd_ResourceGroup =
        (if ts_ResourceGroup ts \<noteq> ''NoResourceGroup'' then Some (ts_ResourceGroup ts) else None)\<rparr>"

text \<open>The first loop of \<^verbatim>\<open>queryResponse\<close>, over \<^verbatim>\<open>tsdbReq.Queries\<close>.\<close>

fun queryResponse_requests ::
  "'s sdk \<Rightarrow> DatasourceRequest \<Rightarrow> DatasourceQuery list \<Rightarrow> responseAndQuery list \<Rightarrow>
   OCIDatasource \<Rightarrow> 's world \<Rightarrow> (error + responseAndQuery list) \<times> OCIDatasource \<times> 's world" where
  "queryResponse_requests sdk tsdbReq [] results o1 w = (Inr results, o1, w)"
| "queryResponse_requests sdk tsdbReq (q # queries) results o1 w =
     (let ts = ModelJson q;
          req = queryResponse_req tsdbReq ts;
          o2 = o1\<lparr>metricsClient :=
                    (metricsClient o1)\<lparr>mc_region := StringToRegion sdk (ts_Region ts)\<rparr>\<rparr>;
          request = \<lparr>sm_CompartmentId = Some (ts_Compartment ts),
                     sm_SummarizeMetricsDataDetails = req\<rparr>;
          r = SummarizeMetricsData sdk (metricsClient o2) request (cloud w);
          w2 = \<lparr>cloud = snd r,
                trace = trace w @ [SummarizeMetricsDataCall (metricsClient o2) request]\<rparr>
      in case fst r of
           Inl e \<Rightarrow> (Inl (Wrap e []), o2, w2)
         | Inr res \<Rightarrow>
             queryResponse_requests sdk tsdbReq queries
               (results @ [\<lparr>ociRes = res, query = q, err = None\<rparr>]) o2 w2)"

text \<open>The second loop, over \<open>results\<close>.\<close>

fun queryResponse_results :: "responseAndQuery list \<Rightarrow> QueryResult list \<Rightarrow> error + QueryResult list" where
  "queryResponse_results [] queryRes = Inr queryRes"
| "queryResponse_results (q # results) queryRes =
     (case err q of
        Some e \<Rightarrow>
          queryResponse_results results
            (queryRes @ [\<lparr>qr_RefId = RefId (query q), Error = error_message e,
                          Series = [], Tables = []\<rparr>])
      | None \<Rightarrow>
          (case seriesOfItems (sm_Items (ociRes q)) [] of
             Inl p \<Rightarrow> Inl p
           | Inr series \<Rightarrow>
               queryResponse_results results
                 (queryRes @ [\<lparr>qr_RefId = RefId (query q), Error = [],
                               Series = series, Tables = []\<rparr>])))"

definition queryResponse ::
  "'s sdk \<Rightarrow> DatasourceRequest \<Rightarrow> OCIDatasource \<Rightarrow> 's world \<Rightarrow>
   (error + DatasourceResponse) \<times> OCIDatasource \<times> 's world" where
  "queryResponse sdk tsdbReq o1 w =
     (case queryResponse_requests sdk tsdbReq (Queries tsdbReq) [] o1 w of
        (Inl e, o2, w2) \<Rightarrow> (Inl e, o2, w2)
      | (Inr results, o2, w2) \<Rightarrow>
          (case queryResponse_results results [] of
             Inl p \<Rightarrow> (Inl p, o2, w2)
           | Inr queryRes \<Rightarrow> (Inr \<lparr>Results = queryRes\<rparr>, o2, w2)))"

subsection \<open>Query\<close>

text \<open>The client bootstrap of \<^verbatim>\<open>Query\<close> (the body of \<^verbatim>\<open>if o.config == nil\<close>):
  \<open>Some e\<close> when it leaves \<^verbatim>\<open>Query\<close> with the error or panic \<open>e\<close>.\<close>

definition Query_bootstrap ::
  "'s sdk \<Rightarrow> string \<Rightarrow> OCIDatasource \<Rightarrow> 's world \<Rightarrow> error option \<times> OCIDatasource \<times> 's world" where
  "Query_bootstrap sdk environment o1 w =
     (case config o1 of
        Some c \<Rightarrow> (None, o1, w)
      | None \<Rightarrow>
          (case getConfigProvider sdk environment of
             Inl e \<Rightarrow> (Some (Wrap e ''broken environment''), o1, w)
           | Inr configProvider \<Rightarrow>
               (let w2 = w\<lparr>trace := trace w @ [NewMonitoringClient configProvider]\<rparr>
                in case NewMonitoringClientWithConfigurationProvider sdk configProvider of
                     Inl e \<Rightarrow> (Some (New (''error with client'' @ error_message e)), o1, w2)
                   | Inr mClient \<Rightarrow>
                       (let w3 = w2\<lparr>trace := trace w2 @ [NewIdentityClient configProvider]\<rparr>
                        in case NewIdentityClientWithConfigurationProvider sdk configProvider of
                             Inl e \<Rightarrow> (Some (Panic (error_message e)), o1, w3)
                           | Inr iClient \<Rightarrow>
                               (None,
                                o1\<lparr>identityClient := iClient, metricsClient := mClient,
                                   config := Some configProvider\<rparr>,
                                w3)))))"

text \<open>What a handler returns, as a return value of \<^verbatim>\<open>Query\<close>: a response that is
  not nil.\<close>

definition returned ::
  "(error + DatasourceResponse) \<times> OCIDatasource \<times> 's world \<Rightarrow>
   (error + DatasourceResponse option) \<times> OCIDatasource \<times> 's world" where
  "returned r = (map_sum (\<lambda>e. e) Some (fst r), snd r)"

definition Query ::
  "'s sdk \<Rightarrow> RangeOrder \<Rightarrow> time \<Rightarrow> DatasourceRequest \<Rightarrow> OCIDatasource \<Rightarrow> 's world \<Rightarrow>
   ((error + DatasourceResponse option) \<times> OCIDatasource \<times> 's world) option" where
  "Query sdk ro now tsdbReq o1 w =
     (case Queries tsdbReq of
        [] \<Rightarrow> Some (Inl (Panic ''index out of range''), o1, w)
      | q # queries \<Rightarrow>
          (let ts = ModelJson q;
               queryType = ts_QueryType ts
           in case Query_bootstrap sdk (ts_Environment ts) o1 w of
                (Some e, o2, w2) \<Rightarrow> Some (Inl e, o2, w2)
              | (None, o2, w2) \<Rightarrow>
                  if queryType = ''compartments''
                    then map_option returned (compartmentsResponse sdk ro now tsdbReq o2 w2)
                  else if queryType = ''dimensions'' then Some (returned (dimensionResponse sdk tsdbReq o2 w2))
                  else if queryType = ''namespaces'' then Some (returned (namespaceResponse sdk tsdbReq o2 w2))
                  else if queryType = ''resourcegroups''
                    then Some (returned (resourcegroupsResponse sdk tsdbReq o2 w2))
                  else if queryType = ''regions'' then Some (returned (regionsResponse sdk tsdbReq o2 w2))
                  else if queryType = ''search'' then Some (returned (searchResponse sdk tsdbReq o2 w2))
                  else if queryType = ''test'' then Some (testResponse sdk tsdbReq o2 w2)
                  else Some (returned (queryResponse sdk tsdbReq o2 w2))))"

section \<open>Environments\<close>

text \<open>Descriptions of what the SDK answers, and of the calls that the datasource issues,
  for the statements below.\<close>

subsection \<open>A monitoring service that serves a sequence of pages\<close>

text \<open>The cloud state is the number of \<^verbatim>\<open>ListMetrics\<close> calls served so far; the
  \<open>n\<close>-th call is answered with \<open>pages n\<close>.\<close>

definition servePages ::
  "(nat \<Rightarrow> ListMetricsResponse) \<Rightarrow> MonitoringClient \<Rightarrow> ListMetricsRequest \<Rightarrow> nat \<Rightarrow>
   (ListMetricsResponse \<times> error option) \<times> nat" where
  "servePages pages client req n = ((pages n, None), Suc n)"

definition pageRequest ::
  "string \<Rightarrow> ListMetricsDetails \<Rightarrow> string option \<Rightarrow> ListMetricsRequest" where
  "pageRequest compartment metricDetails page =
     \<lparr>lm_CompartmentId = Some compartment, lm_ListMetricsDetails = metricDetails, lm_Page = page\<rparr>"

definition inRegion :: "'s sdk \<Rightarrow> string \<Rightarrow> OCIDatasource \<Rightarrow> OCIDatasource" where
  "inRegion sdk region o1 =
     o1\<lparr>metricsClient := (metricsClient o1)\<lparr>mc_region := StringToRegion sdk region\<rparr>\<rparr>"

definition cursorAt :: "(nat \<Rightarrow> ListMetricsResponse) \<Rightarrow> string option \<Rightarrow> nat \<Rightarrow> nat \<Rightarrow> string option" where
  "cursorAt pages page n i = (if i = n then page else lm_OpcNextPage (pages (i - 1)))"

definition metricPage :: "Metric list \<Rightarrow> string option \<Rightarrow> ListMetricsResponse" where
  "metricPage items next = \<lparr>lm_RawResponse = Some 200, lm_Items = items, lm_OpcNextPage = next\<rparr>"

definition named :: "string \<Rightarrow> Metric" where
  "named n = \<lparr>m_Name = Some n, m_Namespace = None, m_ResourceGroup = None, m_Dimensions = []\<rparr>"

definition sdkPages :: "(nat \<Rightarrow> ListMetricsResponse) \<Rightarrow> nat sdk" where
  "sdkPages pages =
     \<lparr>StringToRegion = (\<lambda>r. r),
      InstancePrincipalConfigurationProvider = Inr InstancePrincipalConfig,
      NewMonitoringClientWithConfigurationProvider = (\<lambda>c. Inr \<lparr>mc_config = Some c, mc_region = []\<rparr>),
      NewIdentityClientWithConfigurationProvider = (\<lambda>c. Inr \<lparr>ic_config = Some c, ic_region = []\<rparr>),
      ListMetrics = servePages pages,
      SummarizeMetricsData = (\<lambda>client req n. (Inl (New ''unavailable''), n)),
      GetTenancy = (\<lambda>client req n. (Inl (New ''unavailable''), n)),
      ListCompartments = (\<lambda>client req n. (Inl (New ''unavailable''), n)),
      ListRegions = (\<lambda>client n. (Inl (New ''unavailable''), n))\<rparr>"

definition pagesForever :: "nat \<Rightarrow> ListMetricsResponse" where
  "pagesForever i = metricPage [named ''m''] (Some ''next'')"

definition pagesUpTo :: "nat \<Rightarrow> nat \<Rightarrow> ListMetricsResponse" where
  "pagesUpTo N i = metricPage [named ''m''] (if Suc i < N then Some ''next'' else None)"

definition noDetails :: ListMetricsDetails where
  "noDetails = \<lparr>lmd_Name = None, lmd_Namespace = None, lmd_ResourceGroup = None, lmd_GroupBy = []\<rparr>"

subsection \<open>Series names\<close>

text \<open>Joining strings with a separator, and the dimension values of an item in the order
  of their sorted keys.\<close>

fun joinWith :: "string \<Rightarrow> string list \<Rightarrow> string" where
  "joinWith sep [] = []"
| "joinWith sep [x] = x"
| "joinWith sep (x # y # ys) = x @ sep @ joinWith sep (y # ys)"

definition valuesByKey :: "(string \<times> string) list \<Rightarrow> string list" where
  "valuesByKey dimensions = map (go_lookup (map_of dimensions)) (sort (map fst dimensions))"

definition cpuItem :: "(string \<times> string) list \<Rightarrow> MetricData" where
  "cpuItem dimensions =
     \<lparr>md_Name = Some ''CpuUtilization'', md_Dimensions = dimensions, md_AggregatedDatapoints = []\<rparr>"

subsection \<open>Requests and a metrics service for the main query path\<close>

definition grafanaRequest :: "string \<Rightarrow> string \<Rightarrow> string \<Rightarrow> string \<Rightarrow> GrafanaRequest" where
  "grafanaRequest queryType environment expr resourceGroup =
     \<lparr>ts_Compartment = ''ocid1.compartment'', ts_Environment = environment,
      ts_QueryType = queryType, ts_Region = ''us-ashburn-1'', ts_TenancyOCID = ''ocid1.tenancy'',
      ts_Query = expr, ts_Resolution = ''1m'', ts_Namespace = ''oci_computeagent'',
      ts_ResourceGroup = resourceGroup, ts_Metric = ''CpuUtilization''\<rparr>"

definition batch :: "DatasourceQuery list \<Rightarrow> DatasourceRequest" where
  "batch queries = \<lparr>Queries = queries, FromEpochMs = 0, ToEpochMs = 60000\<rparr>"

text \<open>A service that answers each \<^verbatim>\<open>SummarizeMetricsData\<close> request with \<open>answer\<close> and
  counts the calls.\<close>

definition sdkSummarize ::
  "(SummarizeMetricsDataRequest \<Rightarrow> error + SummarizeMetricsDataResponse) \<Rightarrow> nat sdk" where
  "sdkSummarize answer =
     (sdkPages pagesForever)\<lparr>SummarizeMetricsData := (\<lambda>client req n. (answer req, Suc n))\<rparr>"

definition failsOnBad :: "SummarizeMetricsDataRequest \<Rightarrow> error + SummarizeMetricsDataResponse" where
  "failsOnBad req =
     (if smd_Query (sm_SummarizeMetricsDataDetails req) = Some ''bad''
      then Inl (New ''boom'') else Inr \<lparr>sm_Items = []\<rparr>)"

definition threeQueries :: DatasourceRequest where
  "threeQueries =
     batch [\<lparr>RefId = ''A'', ModelJson = grafanaRequest ''query'' ''local'' ''good'' []\<rparr>,
            \<lparr>RefId = ''B'', ModelJson = grafanaRequest ''query'' ''local'' ''bad'' []\<rparr>,
            \<lparr>RefId = ''C'', ModelJson = grafanaRequest ''query'' ''local'' ''good'' []\<rparr>]"

subsection \<open>The resource-group filter of an outbound request\<close>

definition isMetricsCall :: "event \<Rightarrow> bool" where
  "isMetricsCall ev =
     (case ev of ListMetricsCall client req \<Rightarrow> True
               | SummarizeMetricsDataCall client req \<Rightarrow> True
               | _ \<Rightarrow> False)"

definition resourceGroupFilter :: "event \<Rightarrow> string option" where
  "resourceGroupFilter ev =
     (case ev of
        ListMetricsCall client req \<Rightarrow> lmd_ResourceGroup (lm_ListMetricsDetails req)
      | SummarizeMetricsDataCall client req \<Rightarrow> smd_ResourceGroup (sm_SummarizeMetricsDataDetails req)
      | _ \<Rightarrow> None)"

text \<open>The filter that a decoded query asks for: none for the sentinel, the value of
  \<open>ResourceGroup\<close> otherwise.\<close>

definition requestedFilter :: "GrafanaRequest \<Rightarrow> string option" where
  "requestedFilter ts =
     (if ts_ResourceGroup ts = ''NoResourceGroup'' then None else Some (ts_ResourceGroup ts))"

definition pageABA :: "nat \<Rightarrow> ListMetricsResponse" where
  "pageABA i = metricPage [named ''A'', named ''B'', named ''A''] None"

text \<open>A page of items that carry the resource groups \<open>groups\<close>, a query of type
  \<open>resourcegroups\<close>, and a datasource whose clients are there.\<close>

definition grouped :: "string \<Rightarrow> Metric" where
  "grouped g = \<lparr>m_Name = None, m_Namespace = None, m_ResourceGroup = Some g, m_Dimensions = []\<rparr>"

definition groupsPage :: "string list \<Rightarrow> nat \<Rightarrow> ListMetricsResponse" where
  "groupsPage groups i = metricPage (map grouped groups) None"

definition groupsQuery :: DatasourceQuery where
  "groupsQuery = \<lparr>RefId = ''A'', ModelJson = grafanaRequest ''resourcegroups'' ''local'' [] []\<rparr>"

definition cachedDatasource :: OCIDatasource where
  "cachedDatasource =
     NewOCIDatasource
       \<lparr>metricsClient := \<lparr>mc_config = Some DefaultConfig, mc_region = []\<rparr>,
        identityClient := \<lparr>ic_config = Some DefaultConfig, ic_region = []\<rparr>,
        config := Some DefaultConfig\<rparr>"

text \<open>The first request made for a query: a \<^verbatim>\<open>ListMetrics\<close> request without a page
  cursor (the requests for the further pages of the same query carry one), or a
  \<^verbatim>\<open>SummarizeMetricsData\<close> request.\<close>

definition opensQuery :: "event \<Rightarrow> bool" where
  "opensQuery ev =
     (case ev of ListMetricsCall client req \<Rightarrow> lm_Page req = None
               | SummarizeMetricsDataCall client req \<Rightarrow> True
               | _ \<Rightarrow> False)"

text \<open>What a loop over the queries of a batch sends, query by query: \<open>blocks\<close> are the
  requests sent for the first query, those sent for the second one, and so on. Each
  block is the first request of its query followed by requests for further pages, and
  each of its requests is a metrics call with the resource-group filter that its own
  query asks for.\<close>

fun perQuery :: "DatasourceQuery list \<Rightarrow> event list list \<Rightarrow> bool" where
  "perQuery queries [] = True"
| "perQuery [] (block # blocks) = False"
| "perQuery (q # queries) (block # blocks) =
     ((case block of
         [] \<Rightarrow> False
       | first # others \<Rightarrow> opensQuery first \<and> list_all (\<lambda>ev. \<not> opensQuery ev) others) \<and>
      list_all (\<lambda>ev. isMetricsCall ev \<and> resourceGroupFilter ev = requestedFilter (ModelJson q)) block \<and>
      perQuery queries blocks)"

text \<open>The blocks of a loop that went wrong (\<open>failed\<close>) or not: a batch that is not empty
  has a first block, and a loop that did not go wrong has a block for every query.\<close>

definition answersBatch :: "DatasourceQuery list \<Rightarrow> bool \<Rightarrow> event list list \<Rightarrow> bool" where
  "answersBatch queries failed blocks =
     (perQuery queries blocks \<and> (queries = [] \<or> blocks \<noteq> []) \<and>
      (failed \<or> length blocks = length queries))"

text \<open>A batch of three main queries: a resource group, the sentinel, and the empty
  resource group; and a service that answers every one of them.\<close>

definition sentinelBatch :: DatasourceRequest where
  "sentinelBatch =
     batch [\<lparr>RefId = ''A'', ModelJson = grafanaRequest ''query'' ''local'' ''q'' ''rg1''\<rparr>,
            \<lparr>RefId = ''B'', ModelJson = grafanaRequest ''query'' ''local'' ''q'' ''NoResourceGroup''\<rparr>,
            \<lparr>RefId = ''C'', ModelJson = grafanaRequest ''query'' ''local'' ''q'' []\<rparr>]"

definition noData :: "SummarizeMetricsDataRequest \<Rightarrow> error + SummarizeMetricsDataResponse" where
  "noData req = Inr \<lparr>sm_Items = []\<rparr>"

subsection \<open>Compartment listings\<close>

text \<open>The parent chain of a compartment reaches the tenancy.\<close>

inductive reachesRoot :: "(string \<rightharpoonup> string) \<Rightarrow> string \<Rightarrow> string \<Rightarrow> bool"
  for parents :: "string \<rightharpoonup> string" and tenancyOcid :: string where
  root: "reachesRoot parents tenancyOcid tenancyOcid"
| child: "parents cmptId = Some parent \<Longrightarrow> reachesRoot parents tenancyOcid parent \<Longrightarrow>
          reachesRoot parents tenancyOcid cmptId"

text \<open>The recorded compartments form a tree under the tenancy: the parent chain of each
  of them reaches the tenancy (so no chain runs into a cycle or into a parent that was
  not recorded).\<close>

definition finiteTree :: "(string \<rightharpoonup> string) \<Rightarrow> string \<Rightarrow> bool" where
  "finiteTree parents tenancyOcid = (\<forall>cmptId\<in>dom parents. reachesRoot parents tenancyOcid cmptId)"

text \<open>The full path names as the specification words them: the tenancy has its label, a
  compartment right under the tenancy has \<open>"/"\<close> and its own name, any other one has the
  full name of its parent, \<open>"/"\<close> and its own name.\<close>

definition fullPaths ::
  "(string \<rightharpoonup> string) \<Rightarrow> (string \<rightharpoonup> string) \<Rightarrow> string \<Rightarrow> (string \<rightharpoonup> string) \<Rightarrow> bool" where
  "fullPaths names parents tenancyOcid full =
     (dom full = dom names \<and>
      full tenancyOcid = Some (go_lookup names tenancyOcid @ tenancy_suffix) \<and>
      (\<forall>cmptId\<in>dom names. cmptId = tenancyOcid \<or>
         full cmptId =
           (if parents cmptId = Some tenancyOcid then Some (''/'' @ go_lookup names cmptId)
            else map_option (\<lambda>parentPath. parentPath @ ''/'' @ go_lookup names cmptId)
                   (full (the (parents cmptId))))))"

text \<open>An identity service that knows the tenancy by the name \<open>tenancyName\<close> and answers
  the \<open>n\<close>-th \<^verbatim>\<open>ListCompartments\<close> call with \<open>pages n\<close>; the cloud state counts these
  calls. The listing has \<open>N + 1\<close> pages: page \<open>N\<close> is the first without a cursor.\<close>

definition compartmentsServed ::
  "nat sdk \<Rightarrow> string \<Rightarrow> (nat \<Rightarrow> ListCompartmentsResponse) \<Rightarrow> nat \<Rightarrow> bool" where
  "compartmentsServed sdk tenancyName pages N =
     (GetTenancy sdk = (\<lambda>client tenancyId n. (Inr \<lparr>gt_Name = Some tenancyName\<rparr>, n)) \<and>
      ListCompartments sdk = (\<lambda>client req n. (Inr (pages n), Suc n)) \<and>
      (\<forall>i<N. lc_OpcNextPage (pages i) \<noteq> None) \<and> lc_OpcNextPage (pages N) = None)"

definition listed :: "(nat \<Rightarrow> ListCompartmentsResponse) \<Rightarrow> nat \<Rightarrow> Compartment list" where
  "listed pages N = concat (map (\<lambda>i. lc_Items (pages i)) [0..<Suc N])"

definition activeIds :: "Compartment list \<Rightarrow> string set" where
  "activeIds items = {the (c_Id c) | c. c \<in> set items \<and> c_LifecycleState c = Active}"

definition sdkIdentity :: "string \<Rightarrow> (nat \<Rightarrow> ListCompartmentsResponse) \<Rightarrow> nat sdk" where
  "sdkIdentity tenancyName pages =
     (sdkPages pagesForever)
       \<lparr>GetTenancy := (\<lambda>client tenancyId n. (Inr \<lparr>gt_Name = Some tenancyName\<rparr>, n)),
        ListCompartments := (\<lambda>client req n. (Inr (pages n), Suc n))\<rparr>"

definition cmpt :: "string \<Rightarrow> string \<Rightarrow> string \<Rightarrow> LifecycleState \<Rightarrow> Compartment" where
  "cmpt cid name parent state =
     \<lparr>c_Id = Some cid, c_CompartmentId = Some parent, c_Name = Some name, c_LifecycleState = state\<rparr>"

definition onePage :: "Compartment list \<Rightarrow> nat \<Rightarrow> ListCompartmentsResponse" where
  "onePage items i = \<lparr>lc_Items = items, lc_OpcNextPage = None\<rparr>"

text \<open>What the passes keep true of the names resolved so far.\<close>

definition pathsInv ::
  "(string \<rightharpoonup> string) \<Rightarrow> (string \<rightharpoonup> string) \<Rightarrow> string \<Rightarrow> (string \<rightharpoonup> string) \<Rightarrow> bool" where
  "pathsInv names parents t full =
     (full t = Some (go_lookup names t @ tenancy_suffix) \<and>
      (\<forall>c v. full c = Some v \<and> c \<noteq> t \<longrightarrow>
         take 1 v = ''/'' \<and>
         (\<exists>p. parents c = Some p \<and>
              (if p = t then v = ''/'' @ go_lookup names c
               else \<exists>parentPath. full p = Some parentPath \<and>
                      v = parentPath @ ''/'' @ go_lookup names c))))"

text \<open>A listing of two active compartments, \<open>c2\<close> under \<open>c1\<close> under the tenancy \<open>t\<close>,
  and a deleted one; and iteration orders for it.\<close>

definition smallTree :: "Compartment list" where
  "smallTree =
     [cmpt ''c1'' ''a'' ''t'' Active, cmpt ''c2'' ''b'' ''c1'' Active, cmpt ''c3'' ''old'' ''t'' Deleted]"

definition smallOrder :: RangeOrder where
  "smallOrder =
     \<lparr>resolveOrder = (\<lambda>n. [''c2'', ''c1'', ''t'']), invertOrder = [''t'', ''c1'', ''c2''],
      rowsOrder = []\<rparr>"

text \<open>A listing of two active compartments of the same name under the tenancy, and a
  listing of one active compartment \<open>c1\<close> whose parent \<open>p\<close> is listed as inactive.\<close>

definition twins :: "Compartment list" where
  "twins = [cmpt ''c1'' ''a'' ''t'' Active, cmpt ''c2'' ''a'' ''t'' Active]"

definition orphan :: "Compartment list" where
  "orphan = [cmpt ''p'' ''old'' ''t'' Inactive, cmpt ''c1'' ''a'' ''p'' Active]"

definition smallNames :: "string \<rightharpoonup> string" where
  "smallNames = [''t'' \<mapsto> ''T'', ''c1'' \<mapsto> ''a'', ''c2'' \<mapsto> ''b'']"

definition smallParents :: "string \<rightharpoonup> string" where
  "smallParents = [''t'' \<mapsto> [], ''c1'' \<mapsto> ''t'', ''c2'' \<mapsto> ''c1'']"

text \<open>Two compartments requests in a row: the state that the first one leaves is the
  state that the second one finds. The result is the \<open>timeCacheUpdated\<close> field after the
  first request, and the outbound requests made during the second.\<close>

definition twoCompartmentsRequests ::
  "'s sdk \<Rightarrow> RangeOrder \<Rightarrow> time \<Rightarrow> time \<Rightarrow> DatasourceRequest \<Rightarrow> OCIDatasource \<Rightarrow> 's world \<Rightarrow>
   (time \<times> event list) option" where
  "twoCompartmentsRequests sdk ro now1 now2 tsdbReq o1 w =
     (case compartmentsResponse sdk ro now1 tsdbReq o1 w of
        None \<Rightarrow> None
      | Some (r1, o2, w2) \<Rightarrow>
          (case compartmentsResponse sdk ro now2 tsdbReq o2 w2 of
             None \<Rightarrow> None
           | Some (r2, o3, w3) \<Rightarrow> Some (timeCacheUpdated o2, drop (length (trace w2)) (trace w3))))"

definition compartmentsRequest :: DatasourceRequest where
  "compartmentsRequest =
     batch [\<lparr>RefId = ''A'', ModelJson = grafanaRequest ''compartments'' ''local'' [] []\<rparr>]"

section \<open>Properties\<close>

subsection \<open>searchHelper\<close>

lemma inRegion_idem [simp]: "inRegion sdk region (inRegion sdk region o1) = inRegion sdk region o1"
  by (simp add: inRegion_def)

lemma metricsClient_inRegion [simp]:
  "metricsClient (inRegion sdk region o1) = (metricsClient o1)\<lparr>mc_region := StringToRegion sdk region\<rparr>"
  by (simp add: inRegion_def)

lemma searchHelper_loop_pages:
  assumes srv: "ListMetrics sdk = servePages pages"
  shows "(\<forall>i<m. lm_OpcNextPage (pages (n + i)) \<noteq> None) \<Longrightarrow>
         k + m \<le> MAX_PAGES_TO_FETCH \<Longrightarrow>
         lm_OpcNextPage (pages (n + m)) = None \<or> k + m = MAX_PAGES_TO_FETCH \<Longrightarrow>
         searchHelper_loop sdk region compartment metricDetails items page k o1 \<lparr>cloud = n, trace = tr\<rparr> =
           (Inr (items @ concat (map (\<lambda>i. lm_Items (pages i)) [n..<n + Suc m])),
            inRegion sdk region o1,
            \<lparr>cloud = n + Suc m,
             trace = tr @ map (\<lambda>i. ListMetricsCall (metricsClient (inRegion sdk region o1))
                                 (pageRequest compartment metricDetails (cursorAt pages page n i)))
                           [n..<n + Suc m]\<rparr>)"
proof (induction m arbitrary: n k items page o1 tr)
  case 0
  then show ?case
    by (subst searchHelper_loop.simps)
       (auto simp: srv servePages_def Let_def inRegion_def pageRequest_def cursorAt_def)
next
  case (Suc m)
  have "lm_OpcNextPage (pages n) \<noteq> None" using Suc.prems(1) by (metis add.right_neutral zero_less_Suc)
  then obtain c where c0: "lm_OpcNextPage (pages n) = Some c" by auto
  have k: "\<not> MAX_PAGES_TO_FETCH \<le> k" using Suc.prems(2) by simp
  have step: "searchHelper_loop sdk region compartment metricDetails items page k o1 \<lparr>cloud = n, trace = tr\<rparr> =
     searchHelper_loop sdk region compartment metricDetails (items @ lm_Items (pages n))
       (lm_OpcNextPage (pages n)) (Suc k) (inRegion sdk region o1)
       \<lparr>cloud = Suc n, trace = tr @ [ListMetricsCall (metricsClient (inRegion sdk region o1))
                                      (pageRequest compartment metricDetails page)]\<rparr>"
    by (subst searchHelper_loop.simps)
       (simp add: srv servePages_def Let_def inRegion_def pageRequest_def c0 k)
  have ih: "searchHelper_loop sdk region compartment metricDetails (items @ lm_Items (pages n))
       (lm_OpcNextPage (pages n)) (Suc k) (inRegion sdk region o1)
       \<lparr>cloud = Suc n, trace = tr @ [ListMetricsCall (metricsClient (inRegion sdk region o1))
                                      (pageRequest compartment metricDetails page)]\<rparr> =
      (Inr ((items @ lm_Items (pages n)) @ concat (map (\<lambda>i. lm_Items (pages i)) [Suc n..<Suc n + Suc m])),
            inRegion sdk region (inRegion sdk region o1),
            \<lparr>cloud = Suc n + Suc m,
             trace = (tr @ [ListMetricsCall (metricsClient (inRegion sdk region o1))
                                      (pageRequest compartment metricDetails page)]) @ map (\<lambda>i. ListMetricsCall (metricsClient (inRegion sdk region (inRegion sdk region o1)))
                                 (pageRequest compartment metricDetails (cursorAt pages (lm_OpcNextPage (pages n)) (Suc n) i)))
                           [Suc n..<Suc n + Suc m]\<rparr>)"
    apply (rule Suc.IH)
    using Suc.prems by auto
  have cur: "map (\<lambda>i. ListMetricsCall (metricsClient (inRegion sdk region o1))
               (pageRequest compartment metricDetails (cursorAt pages (lm_OpcNextPage (pages n)) (Suc n) i)))
              [Suc n..<Suc n + Suc m] =
             map (\<lambda>i. ListMetricsCall (metricsClient (inRegion sdk region o1))
               (pageRequest compartment metricDetails (cursorAt pages page n i)))
              [Suc n..<Suc n + Suc m]"
    by (rule map_cong) (auto simp: cursorAt_def)
  have split: "[n..<n + Suc (Suc m)] = n # [Suc n..<Suc n + Suc m]"
    by (simp add: upt_conv_Cons)
  show ?case
    unfolding step ih split using cur by (simp add: cursorAt_def)
qed


text \<open>Claim C2, as amended. Against a service that answers the \<open>n\<close>-th call with
  \<open>pages n\<close>: when \<open>1 \<le> N \<le> 20\<close>, every page before the last carries a next-page
  cursor and page \<open>N - 1\<close> carries none, \<^verbatim>\<open>searchHelper\<close> issues exactly \<open>N\<close>
  calls (each after the first forwarding the cursor of the page before) and returns the
  items of the \<open>N\<close> pages, concatenated in call order; when every page carries a cursor it
  still returns, after some \<open>k \<ge> 20\<close> calls, with the items of the \<open>k\<close> pages it
  fetched, in call order.\<close>

theorem searchHelper_pages:
  assumes "ListMetrics sdk = servePages pages"
  shows "(1 \<le> N \<and> N \<le> MAX_PAGES_TO_FETCH \<and> (\<forall>i<N - 1. lm_OpcNextPage (pages i) \<noteq> None) \<and>
          lm_OpcNextPage (pages (N - 1)) = None \<longrightarrow>
          searchHelper sdk region compartment metricDetails o1 \<lparr>cloud = 0, trace = tr\<rparr> =
            (Inr (concat (map (\<lambda>i. lm_Items (pages i)) [0..<N])),
             inRegion sdk region o1,
             \<lparr>cloud = N,
              trace = tr @ map (\<lambda>i. ListMetricsCall (metricsClient (inRegion sdk region o1))
                                  (pageRequest compartment metricDetails (cursorAt pages None 0 i)))
                            [0..<N]\<rparr>)) \<and>
         ((\<forall>i. lm_OpcNextPage (pages i) \<noteq> None) \<longrightarrow>
          (\<exists>k\<ge>MAX_PAGES_TO_FETCH.
             searchHelper sdk region compartment metricDetails o1 \<lparr>cloud = 0, trace = tr\<rparr> =
               (Inr (concat (map (\<lambda>i. lm_Items (pages i)) [0..<k])),
                inRegion sdk region o1,
                \<lparr>cloud = k,
                 trace = tr @ map (\<lambda>i. ListMetricsCall (metricsClient (inRegion sdk region o1))
                                     (pageRequest compartment metricDetails (cursorAt pages None 0 i)))
                               [0..<k]\<rparr>)))"
proof (intro conjI impI)
  assume h: "1 \<le> N \<and> N \<le> MAX_PAGES_TO_FETCH \<and> (\<forall>i<N - 1. lm_OpcNextPage (pages i) \<noteq> None) \<and>
             lm_OpcNextPage (pages (N - 1)) = None"
  then obtain m where N: "N = Suc m" by (cases N) auto
  from h N have "\<forall>i<m. lm_OpcNextPage (pages (0 + i)) \<noteq> None"
    and "0 + m \<le> MAX_PAGES_TO_FETCH"
    and "lm_OpcNextPage (pages (0 + m)) = None \<or> 0 + m = MAX_PAGES_TO_FETCH"
    by auto
  from searchHelper_loop_pages [OF assms this]
  show "searchHelper sdk region compartment metricDetails o1 \<lparr>cloud = 0, trace = tr\<rparr> =
            (Inr (concat (map (\<lambda>i. lm_Items (pages i)) [0..<N])),
             inRegion sdk region o1,
             \<lparr>cloud = N,
              trace = tr @ map (\<lambda>i. ListMetricsCall (metricsClient (inRegion sdk region o1))
                                  (pageRequest compartment metricDetails (cursorAt pages None 0 i)))
                            [0..<N]\<rparr>)"
    unfolding searchHelper_def N by simp
next
  assume h: "\<forall>i. lm_OpcNextPage (pages i) \<noteq> None"
  then have "\<forall>i<MAX_PAGES_TO_FETCH. lm_OpcNextPage (pages (0 + i)) \<noteq> None"
    and "0 + MAX_PAGES_TO_FETCH \<le> MAX_PAGES_TO_FETCH"
    and "lm_OpcNextPage (pages (0 + MAX_PAGES_TO_FETCH)) = None \<or> 0 + MAX_PAGES_TO_FETCH = MAX_PAGES_TO_FETCH"
    by auto
  from searchHelper_loop_pages [OF assms this]
  have "searchHelper sdk region compartment metricDetails o1 \<lparr>cloud = 0, trace = tr\<rparr> =
            (Inr (concat (map (\<lambda>i. lm_Items (pages i)) [0..<Suc MAX_PAGES_TO_FETCH])),
             inRegion sdk region o1,
             \<lparr>cloud = Suc MAX_PAGES_TO_FETCH,
              trace = tr @ map (\<lambda>i. ListMetricsCall (metricsClient (inRegion sdk region o1))
                                  (pageRequest compartment metricDetails (cursorAt pages None 0 i)))
                            [0..<Suc MAX_PAGES_TO_FETCH]\<rparr>)"
    unfolding searchHelper_def by simp
  then show "\<exists>k\<ge>MAX_PAGES_TO_FETCH.
             searchHelper sdk region compartment metricDetails o1 \<lparr>cloud = 0, trace = tr\<rparr> =
               (Inr (concat (map (\<lambda>i. lm_Items (pages i)) [0..<k])),
                inRegion sdk region o1,
                \<lparr>cloud = k,
                 trace = tr @ map (\<lambda>i. ListMetricsCall (metricsClient (inRegion sdk region o1))
                                     (pageRequest compartment metricDetails (cursorAt pages None 0 i)))
                               [0..<k]\<rparr>)"
    by (intro exI [of _ "Suc MAX_PAGES_TO_FETCH"]) simp
qed

lemma ListMetrics_sdkPages: "ListMetrics (sdkPages pages) = servePages pages"
  by (simp add: sdkPages_def)

text \<open>The theorem at a sequence of two pages, and at a sequence whose pages all carry a
  cursor.\<close>

theorem searchHelper_pages_witness:
  "lm_OpcNextPage (pagesUpTo 2 0) \<noteq> None \<and> lm_OpcNextPage (pagesUpTo 2 1) = None \<and>
   fst (searchHelper (sdkPages (pagesUpTo 2)) ''r'' ''c'' noDetails NewOCIDatasource \<lparr>cloud = 0, trace = []\<rparr>) =
     Inr [named ''m'', named ''m''] \<and>
   cloud (snd (snd (searchHelper (sdkPages (pagesUpTo 2)) ''r'' ''c'' noDetails NewOCIDatasource
                      \<lparr>cloud = 0, trace = []\<rparr>))) = 2 \<and>
   (\<forall>i. lm_OpcNextPage (pagesForever i) \<noteq> None) \<and>
   (\<exists>k\<ge>MAX_PAGES_TO_FETCH.
      cloud (snd (snd (searchHelper (sdkPages pagesForever) ''r'' ''c'' noDetails NewOCIDatasource
                         \<lparr>cloud = 0, trace = []\<rparr>))) = k)"
proof -
  have a: "1 \<le> (2::nat) \<and> 2 \<le> MAX_PAGES_TO_FETCH \<and> (\<forall>i<2 - 1. lm_OpcNextPage (pagesUpTo 2 i) \<noteq> None) \<and>
          lm_OpcNextPage (pagesUpTo 2 (2 - 1)) = None"
    by (simp add: MAX_PAGES_TO_FETCH_def pagesUpTo_def metricPage_def)
  have b: "\<forall>i. lm_OpcNextPage (pagesForever i) \<noteq> None"
    by (simp add: pagesForever_def metricPage_def)
  have u: "[0..<2] = [0, Suc 0]" by (simp add: upt_conv_Cons)
  from searchHelper_pages [OF ListMetrics_sdkPages, of 2 "pagesUpTo 2" "''r''" "''c''" noDetails NewOCIDatasource "[]"] a
  have 1: "searchHelper (sdkPages (pagesUpTo 2)) ''r'' ''c'' noDetails NewOCIDatasource \<lparr>cloud = 0, trace = []\<rparr> =
            (Inr (concat (map (\<lambda>i. lm_Items (pagesUpTo 2 i)) [0..<2])),
             inRegion (sdkPages (pagesUpTo 2)) ''r'' NewOCIDatasource,
             \<lparr>cloud = 2,
              trace = [] @ map (\<lambda>i. ListMetricsCall (metricsClient (inRegion (sdkPages (pagesUpTo 2)) ''r'' NewOCIDatasource))
                                  (pageRequest ''c'' noDetails (cursorAt (pagesUpTo 2) None 0 i)))
                            [0..<2]\<rparr>)"
    by blast
  from searchHelper_pages [OF ListMetrics_sdkPages, of 2 pagesForever "''r''" "''c''" noDetails NewOCIDatasource "[]"] b
  obtain k where 2: "k \<ge> MAX_PAGES_TO_FETCH"
    "searchHelper (sdkPages pagesForever) ''r'' ''c'' noDetails NewOCIDatasource \<lparr>cloud = 0, trace = []\<rparr> =
               (Inr (concat (map (\<lambda>i. lm_Items (pagesForever i)) [0..<k])),
                inRegion (sdkPages pagesForever) ''r'' NewOCIDatasource,
                \<lparr>cloud = k,
                 trace = [] @ map (\<lambda>i. ListMetricsCall (metricsClient (inRegion (sdkPages pagesForever) ''r'' NewOCIDatasource))
                                     (pageRequest ''c'' noDetails (cursorAt pagesForever None 0 i)))
                               [0..<k]\<rparr>)"
    by blast
  show ?thesis
    unfolding 1 2(2) using 2(1) b
    by (simp add: u pagesUpTo_def metricPage_def)
qed

text \<open>When each of the first 20 pages carries a cursor, the helper makes 21 calls: the
  test \<^verbatim>\<open>pageNumber >= MAX_PAGES_TO_FETCH\<close> comes after the call, and
  \<open>pageNumber\<close> starts at 0.\<close>

lemma searchHelper_capped:
  assumes "\<forall>i<MAX_PAGES_TO_FETCH. lm_OpcNextPage (pages i) \<noteq> None"
  shows "length (trace (snd (snd (searchHelper (sdkPages pages) region compartment metricDetails o1
                                    \<lparr>cloud = 0, trace = []\<rparr>)))) = Suc MAX_PAGES_TO_FETCH"
proof -
  have a: "\<forall>i<MAX_PAGES_TO_FETCH. lm_OpcNextPage (pages (0 + i)) \<noteq> None"
    using assms by simp
  have c: "0 + MAX_PAGES_TO_FETCH \<le> MAX_PAGES_TO_FETCH" by simp
  have d: "lm_OpcNextPage (pages (0 + MAX_PAGES_TO_FETCH)) = None \<or>
           0 + MAX_PAGES_TO_FETCH = MAX_PAGES_TO_FETCH" by simp
  show ?thesis
    unfolding searchHelper_def
    by (subst searchHelper_loop_pages [where pages = pages and m = MAX_PAGES_TO_FETCH,
                                       OF ListMetrics_sdkPages a c d]) simp
qed

text \<open>Claim C2 as stated fails: with a cursor on every page the helper stops after 21
  calls, not 20; and on a sequence of 22 pages, the last one without a cursor, it issues
  21 calls, not 22.\<close>

theorem searchHelper_pages_counterexample:
  "length (trace (snd (snd (searchHelper (sdkPages pagesForever) ''r'' ''c'' noDetails NewOCIDatasource
                              \<lparr>cloud = 0, trace = []\<rparr>)))) = 21 \<and>
   lm_OpcNextPage (pagesUpTo 22 21) = None \<and>
   length (trace (snd (snd (searchHelper (sdkPages (pagesUpTo 22)) ''r'' ''c'' noDetails NewOCIDatasource
                              \<lparr>cloud = 0, trace = []\<rparr>)))) = 21"
proof -
  have a: "\<forall>i<MAX_PAGES_TO_FETCH. lm_OpcNextPage (pagesForever i) \<noteq> None"
    by (simp add: pagesForever_def metricPage_def)
  have b: "\<forall>i<MAX_PAGES_TO_FETCH. lm_OpcNextPage (pagesUpTo 22 i) \<noteq> None"
    by (simp add: pagesUpTo_def metricPage_def MAX_PAGES_TO_FETCH_def)
  show ?thesis
    unfolding searchHelper_capped [OF a] searchHelper_capped [OF b]
    by (simp add: MAX_PAGES_TO_FETCH_def pagesUpTo_def metricPage_def)
qed

subsection \<open>queryResponse: a failing query\<close>

text \<open>The first loop never stores an error: it returns as soon as a call fails.\<close>

lemma queryResponse_requests_err:
  "queryResponse_requests sdk tsdbReq queries results o1 w = (Inr rs, o2, w2) \<Longrightarrow>
   \<forall>r\<in>set results. err r = None \<Longrightarrow> \<forall>r\<in>set rs. err r = None"
proof (induction queries arbitrary: results o1 w)
  case Nil
  then show ?case by simp
next
  case (Cons q queries)
  then show ?case
    by (auto simp: Let_def split: sum.splits)
qed

lemma queryResponse_results_Error:
  "queryResponse_results rs queryRes = Inr result \<Longrightarrow> \<forall>r\<in>set rs. err r = None \<Longrightarrow>
   \<forall>q\<in>set queryRes. Error q = [] \<Longrightarrow> \<forall>q\<in>set result. Error q = []"
proof (induction rs arbitrary: queryRes)
  case Nil
  then show ?case by simp
next
  case (Cons r rs)
  then show ?case
    by (auto split: sum.splits)
qed

text \<open>So the branch of the second loop that fills the \<open>Error\<close> field is dead: no result
  of \<^verbatim>\<open>queryResponse\<close> carries an error text.\<close>

lemma queryResponse_no_Error:
  assumes "queryResponse sdk tsdbReq o1 w = (Inr resp, o2, w2)"
  shows "\<forall>q\<in>set (Results resp). Error q = []"
proof -
  from assms obtain rs where
    rs: "queryResponse_requests sdk tsdbReq (Queries tsdbReq) [] o1 w = (Inr rs, o2, w2)"
    and res: "queryResponse_results rs [] = Inr (Results resp)"
    by (auto simp: queryResponse_def split: prod.splits sum.splits)
  from queryResponse_requests_err [OF rs] have "\<forall>r\<in>set rs. err r = None" by simp
  from queryResponse_results_Error [OF res this] show ?thesis by simp
qed

text \<open>Claim C1 on the code: in a batch of three queries whose second call fails,
  \<^verbatim>\<open>queryResponse\<close> returns the wrapped error and no response at all, after two calls:
  the result of the first query is dropped and the third query is never sent.\<close>

theorem queryResponse_aborts_batch:
  "fst (queryResponse (sdkSummarize failsOnBad) threeQueries NewOCIDatasource
          \<lparr>cloud = 0, trace = []\<rparr>) = Inl (Wrap (New ''boom'') []) \<and>
   cloud (snd (snd (queryResponse (sdkSummarize failsOnBad) threeQueries NewOCIDatasource
                      \<lparr>cloud = 0, trace = []\<rparr>))) = 2"
  by (simp add: queryResponse_def threeQueries_def batch_def sdkSummarize_def failsOnBad_def
      sdkPages_def grafanaRequest_def queryResponse_req_def NewOCIDatasource_def Let_def)

subsection \<open>The name-resolution loop\<close>

lemma set_range_map: "set (range_map m ks) = {(k, v). k \<in> set ks \<and> m k = Some v}"
  by (induction ks) (auto simp: range_map_def split: option.splits)

lemma resolve_entry_le: "full \<subseteq>\<^sub>m resolve_entry names t full e"
  by (cases e) (auto simp: resolve_entry_def map_le_def split: option.splits)

lemma resolve_entry_dom: "dom (resolve_entry names t full (c, p)) \<subseteq> insert c (dom full)"
  by (auto simp: resolve_entry_def split: option.splits if_splits)

lemma resolve_entry_resolves:
  "p = t \<or> p \<in> dom full \<Longrightarrow> c \<in> dom (resolve_entry names t full (c, p))"
  by (auto simp: resolve_entry_def split: option.splits)

lemma foldl_resolve_le: "full \<subseteq>\<^sub>m foldl (resolve_entry names t) full es"
proof (induction es arbitrary: full)
  case Nil
  show ?case by simp
next
  case (Cons e es)
  have "full \<subseteq>\<^sub>m resolve_entry names t full e" by (rule resolve_entry_le)
  also have "\<dots> \<subseteq>\<^sub>m foldl (resolve_entry names t) (resolve_entry names t full e) es"
    by (rule Cons.IH)
  finally show ?case by simp
qed

lemma foldl_resolve_dom: "dom (foldl (resolve_entry names t) full es) \<subseteq> dom full \<union> fst ` set es"
proof (induction es arbitrary: full)
  case Nil
  show ?case by simp
next
  case (Cons e es)
  obtain c p where e: "e = (c, p)" by (cases e)
  from Cons.IH [of "resolve_entry names t full e"] resolve_entry_dom [of names t full c p]
  show ?case unfolding e by auto
qed

lemma foldl_resolve_resolves:
  "(c, p) \<in> set es \<Longrightarrow> p = t \<or> p \<in> dom full \<Longrightarrow> c \<in> dom (foldl (resolve_entry names t) full es)"
proof (induction es arbitrary: full)
  case Nil
  then show ?case by simp
next
  case (Cons e es)
  show ?case
  proof (cases "e = (c, p)")
    case True
    with Cons.prems(2) have "c \<in> dom (resolve_entry names t full e)"
      by (simp add: resolve_entry_resolves)
    moreover have "resolve_entry names t full e \<subseteq>\<^sub>m
                   foldl (resolve_entry names t) (resolve_entry names t full e) es"
      by (rule foldl_resolve_le)
    ultimately show ?thesis by (auto dest: map_le_implies_dom_le)
  next
    case False
    with Cons.prems(1) have in_es: "(c, p) \<in> set es" by simp
    have "p = t \<or> p \<in> dom (resolve_entry names t full e)"
      using Cons.prems(2) resolve_entry_le [of full names t e]
      by (auto dest: map_le_implies_dom_le)
    from Cons.IH [OF in_es this] show ?thesis by simp
  qed
qed

text \<open>While an entry is unresolved in a tree, some unresolved entry has its parent
  resolved (or is a child of the tenancy).\<close>

lemma frontier_exists:
  assumes "reachesRoot parents t c" and "t \<in> dom full" and "c \<notin> dom full"
  shows "\<exists>c' p'. parents c' = Some p' \<and> c' \<notin> dom full \<and> (p' = t \<or> p' \<in> dom full)"
  using assms
proof (induction rule: reachesRoot.induct)
  case root
  then show ?case by simp
next
  case (child cmptId parent)
  show ?case
  proof (cases "parent = t \<or> parent \<in> dom full")
    case True
    with child.hyps(1) child.prems(2) show ?thesis by blast
  next
    case False
    with child.IH child.prems(1) show ?thesis by blast
  qed
qed

lemma resolve_pass_le: "full \<subseteq>\<^sub>m resolve_pass names parents t ks full"
  unfolding resolve_pass_def by (rule foldl_resolve_le)

lemma resolve_pass_dom:
  "dom full \<subseteq> dom parents \<Longrightarrow> dom (resolve_pass names parents t ks full) \<subseteq> dom parents"
proof -
  assume sub: "dom full \<subseteq> dom parents"
  have "fst ` set (range_map parents ks) \<subseteq> dom parents"
    by (auto simp: set_range_map)
  with sub foldl_resolve_dom [of names t full "range_map parents ks"]
  show ?thesis unfolding resolve_pass_def by blast
qed

text \<open>A full pass over a tree resolves at least one entry while one is unresolved.\<close>

lemma resolve_pass_progress:
  assumes tree: "finiteTree parents t" and order: "dom parents \<subseteq> set ks"
    and t: "t \<in> dom full" and sub: "dom full \<subset> dom parents"
  shows "dom full \<subset> dom (resolve_pass names parents t ks full)"
proof -
  from sub obtain c where c: "c \<in> dom parents" "c \<notin> dom full" by blast
  from tree c(1) have "reachesRoot parents t c" by (simp add: finiteTree_def)
  from frontier_exists [OF this t c(2)] obtain c' p' where
    f: "parents c' = Some p'" "c' \<notin> dom full" "p' = t \<or> p' \<in> dom full"
    by blast
  from f(1) order have "(c', p') \<in> set (range_map parents ks)"
    by (auto simp: set_range_map)
  from foldl_resolve_resolves [OF this f(3)]
  have "c' \<in> dom (resolve_pass names parents t ks full)"
    by (simp add: resolve_pass_def)
  with f(2) resolve_pass_le [of full names parents t ks] show ?thesis
    by (auto dest: map_le_implies_dom_le)
qed

text \<open>Over a tree the loop returns, with every entry resolved.\<close>

lemma resolve_loop_returns:
  assumes fin: "finite (dom parents)" and same: "dom names = dom parents"
    and tree: "finiteTree parents t" and order: "\<forall>n. dom parents \<subseteq> set (order n)"
  shows "t \<in> dom full \<Longrightarrow> dom full \<subseteq> dom parents \<Longrightarrow>
         \<exists>full'. resolve_loop names parents t order n full = Some full' \<and>
                 dom full' = dom parents \<and> full \<subseteq>\<^sub>m full'"
proof (induction "card (dom parents - dom full)" arbitrary: n full rule: less_induct)
  case less
  show ?case
  proof (cases "dom full = dom parents")
    case True
    then have "resolve_loop names parents t order n full = Some full"
      by (subst resolve_loop.simps) (simp add: same)
    with True show ?thesis by simp
  next
    case False
    with less.prems have sub: "dom full \<subset> dom parents" by blast
    let ?full = "resolve_pass names parents t (order n) full"
    from order have o: "dom parents \<subseteq> set (order n)" by simp
    have grow: "dom full \<subset> dom ?full"
      by (rule resolve_pass_progress [OF tree o less.prems(1) sub])
    have bound: "dom ?full \<subseteq> dom parents"
      by (rule resolve_pass_dom [OF less.prems(2)])
    have "dom parents - dom ?full \<subset> dom parents - dom full"
      using grow bound sub by blast
    then have m: "card (dom parents - dom ?full) < card (dom parents - dom full)"
      using fin by (intro psubset_card_mono) auto
    have t': "t \<in> dom ?full" using grow less.prems(1) by blast
    from less.hyps [OF m t' bound, of "Suc n"] obtain full' where
      r: "resolve_loop names parents t order (Suc n) ?full = Some full'"
      and d: "dom full' = dom parents" and le: "?full \<subseteq>\<^sub>m full'"
      by blast
    have "card (dom full) < card (dom names)"
      unfolding same using sub fin by (intro psubset_card_mono) auto
    then have "resolve_loop names parents t order n full =
               resolve_loop names parents t order (Suc n) ?full"
      by (subst resolve_loop.simps) simp
    moreover have "full \<subseteq>\<^sub>m full'"
      using resolve_pass_le [of full names parents t "order n"] le by (rule map_le_trans)
    ultimately show ?thesis using r d by simp
  qed
qed


text \<open>An invariant of the passes holds of what the loop returns, and the loop returns
  only when no entry is left.\<close>

lemma resolve_loop_invariant:
  assumes r: "resolve_loop names parents t order n full = Some full'"
    and i: "I full"
    and step: "\<And>ks f. I f \<Longrightarrow> I (resolve_pass names parents t ks f)"
  shows "I full' \<and> \<not> card (dom full') < card (dom names)"
proof -
  let ?P = "\<lambda>names' parents' t' (order' :: nat \<Rightarrow> string list) (n' :: nat) full y.
              names' = names \<longrightarrow> parents' = parents \<longrightarrow> t' = t \<longrightarrow> I full \<longrightarrow>
              I y \<and> \<not> card (dom y) < card (dom names)"
  have "?P names parents t order n full full'"
  proof (rule resolve_loop.raw_induct [where P = ?P, OF _ r])
    fix loop names' parents' t' and order' :: "nat \<Rightarrow> string list" and n' :: nat and f y
    assume IH: "\<And>a b c d e g z. loop a b c d e g = Some z \<Longrightarrow> ?P a b c d e g z"
    assume body: "(if card (dom f) < card (dom names')
                   then loop names' parents' t' order' (Suc n')
                          (resolve_pass names' parents' t' (order' n') f)
                   else Some f) = Some y"
    show "?P names' parents' t' order' n' f y"
    proof (intro impI)
      assume eq: "names' = names" "parents' = parents" "t' = t" and If: "I f"
      show "I y \<and> \<not> card (dom y) < card (dom names)"
      proof (cases "card (dom f) < card (dom names)")
        case True
        with body eq have l: "loop names parents t order' (Suc n')
                          (resolve_pass names parents t (order' n') f) = Some y"
          by simp
        have "I (resolve_pass names parents t (order' n') f)" using If by (rule step)
        with IH [OF l] show ?thesis by simp
      next
        case False
        with body eq have "y = f" by simp
        with False If show ?thesis by simp
      qed
    qed
  qed
  with i show ?thesis by simp
qed

text \<open>When some recorded compartment does not reach the tenancy, the loop never
  returns.\<close>

lemma resolve_entry_reaches:
  assumes "\<forall>c\<in>dom full. reachesRoot parents t c" and "parents c = Some p"
  shows "\<forall>c'\<in>dom (resolve_entry names t full (c, p)). reachesRoot parents t c'"
  using assms
  by (auto simp: resolve_entry_def split: option.splits if_splits
      intro: reachesRoot.child reachesRoot.root)

lemma foldl_resolve_reaches:
  "\<forall>c\<in>dom full. reachesRoot parents t c \<Longrightarrow> \<forall>(c, p)\<in>set es. parents c = Some p \<Longrightarrow>
   \<forall>c\<in>dom (foldl (resolve_entry names t) full es). reachesRoot parents t c"
proof (induction es arbitrary: full)
  case Nil
  then show ?case by simp
next
  case (Cons e es)
  obtain c p where e: "e = (c, p)" by (cases e)
  with Cons.prems(2) have "parents c = Some p" by simp
  from resolve_entry_reaches [OF Cons.prems(1) this]
  have "\<forall>c'\<in>dom (resolve_entry names t full e). reachesRoot parents t c'"
    by (simp add: e)
  from Cons.IH [OF this] Cons.prems(2) show ?case by simp
qed

lemma resolve_pass_reaches:
  assumes "dom full \<subseteq> {c \<in> dom parents. reachesRoot parents t c}"
  shows "dom (resolve_pass names parents t ks full) \<subseteq> {c \<in> dom parents. reachesRoot parents t c}"
proof -
  from assms have a: "\<forall>c\<in>dom full. reachesRoot parents t c" and b: "dom full \<subseteq> dom parents"
    by auto
  have "\<forall>(c, p)\<in>set (range_map parents ks). parents c = Some p"
    by (auto simp: set_range_map)
  from foldl_resolve_reaches [OF a this]
  have "\<forall>c\<in>dom (resolve_pass names parents t ks full). reachesRoot parents t c"
    by (simp add: resolve_pass_def)
  with resolve_pass_dom [OF b, of names t ks] show ?thesis by blast
qed

lemma resolve_loop_diverges:
  assumes fin: "finite (dom parents)" and same: "dom names = dom parents"
    and bad: "\<not> finiteTree parents t"
    and start: "dom full \<subseteq> {c \<in> dom parents. reachesRoot parents t c}"
  shows "resolve_loop names parents t order n full = None"
proof (rule ccontr)
  assume "resolve_loop names parents t order n full \<noteq> None"
  then obtain full' where r: "resolve_loop names parents t order n full = Some full'" by auto
  from resolve_loop_invariant [OF r, of "\<lambda>f. dom f \<subseteq> {c \<in> dom parents. reachesRoot parents t c}"]
    start resolve_pass_reaches
  have sub: "dom full' \<subseteq> {c \<in> dom parents. reachesRoot parents t c}"
    and stopped: "\<not> card (dom full') < card (dom names)"
    by blast+
  from bad obtain c where "c \<in> dom parents" "\<not> reachesRoot parents t c"
    by (auto simp: finiteTree_def)
  with sub have "dom full' \<subset> dom parents" by blast
  with fin have "card (dom full') < card (dom parents)" by (rule psubset_card_mono)
  with stopped same show False by simp
qed

subsection \<open>Full path names\<close>

lemma take1_slash_append: "take 1 v = ''/'' \<Longrightarrow> take 1 (v @ w) = ''/''"
  by (cases v) auto

lemma resolve_entry_pathsInv:
  assumes inv: "pathsInv names parents t full" and p: "parents c = Some p"
  shows "pathsInv names parents t (resolve_entry names t full (c, p))"
proof (cases "full c")
  case (Some v)
  with inv show ?thesis by (simp add: resolve_entry_def)
next
  case None
  from inv have ft: "full t = Some (go_lookup names t @ tenancy_suffix)"
    by (simp add: pathsInv_def)
  with None have ct: "c \<noteq> t" by auto
  from inv have old: "\<And>c' v. full c' = Some v \<Longrightarrow> c' \<noteq> t \<Longrightarrow>
       take 1 v = ''/'' \<and>
       (\<exists>p'. parents c' = Some p' \<and>
          (if p' = t then v = ''/'' @ go_lookup names c'
           else \<exists>parentPath. full p' = Some parentPath \<and> v = parentPath @ ''/'' @ go_lookup names c'))"
    by (simp add: pathsInv_def)
  show ?thesis
  proof (cases "p = t")
    case True
    then have r: "resolve_entry names t full (c, p) = full(c \<mapsto> ''/'' @ go_lookup names c)"
      using None by (simp add: resolve_entry_def)
    show ?thesis
      unfolding r pathsInv_def
    proof (intro conjI allI impI)
      show "(full(c \<mapsto> ''/'' @ go_lookup names c)) t = Some (go_lookup names t @ tenancy_suffix)"
        using ft ct by simp
    next
      fix c' v
      assume h: "(full(c \<mapsto> ''/'' @ go_lookup names c)) c' = Some v \<and> c' \<noteq> t"
      show "take 1 v = ''/''"
        using h old [of c' v] by (cases "c' = c") auto
      show "\<exists>p'. parents c' = Some p' \<and>
              (if p' = t then v = ''/'' @ go_lookup names c'
               else \<exists>parentPath. (full(c \<mapsto> ''/'' @ go_lookup names c)) p' = Some parentPath \<and>
                      v = parentPath @ ''/'' @ go_lookup names c')"
      proof (cases "c' = c")
        case True
        with h p \<open>p = t\<close> show ?thesis by simp
      next
        case False
        with h have "full c' = Some v" "c' \<noteq> t" by simp_all
        from old [OF this] obtain p' where p': "parents c' = Some p'"
          "if p' = t then v = ''/'' @ go_lookup names c'
           else \<exists>parentPath. full p' = Some parentPath \<and> v = parentPath @ ''/'' @ go_lookup names c'"
          by blast
        with None show ?thesis by (cases "p' = c") (auto split: if_splits)
      qed
    qed
  next
    case False
    show ?thesis
    proof (cases "full p")
      case pn: None
      with None False inv show ?thesis by (simp add: resolve_entry_def)
    next
      case (Some parentPath)
      with None False have r: "resolve_entry names t full (c, p) =
                               full(c \<mapsto> parentPath @ ''/'' @ go_lookup names c)"
        by (simp add: resolve_entry_def)
      from old [OF Some False] have pp: "take 1 parentPath = ''/''" by simp
      from Some None have pc: "p \<noteq> c" by auto
      show ?thesis
        unfolding r pathsInv_def
      proof (intro conjI allI impI)
        show "(full(c \<mapsto> parentPath @ ''/'' @ go_lookup names c)) t =
              Some (go_lookup names t @ tenancy_suffix)"
          using ft ct by simp
      next
        fix c' v
        assume h: "(full(c \<mapsto> parentPath @ ''/'' @ go_lookup names c)) c' = Some v \<and> c' \<noteq> t"
        show "take 1 v = ''/''"
          using h old [of c' v] take1_slash_append [OF pp] by (cases "c' = c") auto
        show "\<exists>p'. parents c' = Some p' \<and>
              (if p' = t then v = ''/'' @ go_lookup names c'
               else \<exists>pth. (full(c \<mapsto> parentPath @ ''/'' @ go_lookup names c)) p' = Some pth \<and>
                      v = pth @ ''/'' @ go_lookup names c')"
        proof (cases "c' = c")
          case True
          with h p False Some pc show ?thesis by simp
        next
          case c: False
          with h have "full c' = Some v" "c' \<noteq> t" by simp_all
          from old [OF this] obtain p' where p': "parents c' = Some p'"
            "if p' = t then v = ''/'' @ go_lookup names c'
             else \<exists>pth. full p' = Some pth \<and> v = pth @ ''/'' @ go_lookup names c'"
            by blast
          with None show ?thesis by (cases "p' = c") (auto split: if_splits)
        qed
      qed
    qed
  qed
qed

lemma foldl_resolve_pathsInv:
  "pathsInv names parents t full \<Longrightarrow> \<forall>(c, p)\<in>set es. parents c = Some p \<Longrightarrow>
   pathsInv names parents t (foldl (resolve_entry names t) full es)"
proof (induction es arbitrary: full)
  case Nil
  then show ?case by simp
next
  case (Cons e es)
  obtain c p where e: "e = (c, p)" by (cases e)
  with Cons.prems(2) have "parents c = Some p" by simp
  from resolve_entry_pathsInv [OF Cons.prems(1) this]
  have "pathsInv names parents t (resolve_entry names t full e)" by (simp add: e)
  from Cons.IH [OF this] Cons.prems(2) show ?case by simp
qed

lemma resolve_pass_pathsInv:
  assumes "pathsInv names parents t full"
  shows "pathsInv names parents t (resolve_pass names parents t ks full)"
proof -
  have "\<forall>(c, p)\<in>set (range_map parents ks). parents c = Some p"
    by (auto simp: set_range_map)
  from foldl_resolve_pathsInv [OF assms this] show ?thesis
    by (simp add: resolve_pass_def)
qed

lemma pathsInv_fullPaths:
  assumes inv: "pathsInv names parents t full" and d: "dom full = dom names"
  shows "fullPaths names parents t full"
  unfolding fullPaths_def
proof (intro conjI ballI)
  show "dom full = dom names" by (rule d)
  show "full t = Some (go_lookup names t @ tenancy_suffix)"
    using inv by (simp add: pathsInv_def)
next
  fix c
  assume "c \<in> dom names"
  with d obtain v where v: "full c = Some v" by auto
  show "c = t \<or>
        full c = (if parents c = Some t then Some (''/'' @ go_lookup names c)
                  else map_option (\<lambda>parentPath. parentPath @ ''/'' @ go_lookup names c)
                         (full (the (parents c))))"
  proof (cases "c = t")
    case True
    then show ?thesis by simp
  next
    case False
    with inv v obtain p where "parents c = Some p"
      "if p = t then v = ''/'' @ go_lookup names c
       else \<exists>parentPath. full p = Some parentPath \<and> v = parentPath @ ''/'' @ go_lookup names c"
      unfolding pathsInv_def by blast
    with v show ?thesis by (auto split: if_splits)
  qed
qed

subsection \<open>The listing and the final loop\<close>

lemma activeIds_Cons:
  "activeIds (c # items) =
     (if c_LifecycleState c = Active then insert (the (c_Id c)) (activeIds items)
      else activeIds items)"
  by (auto simp: activeIds_def)

lemma finite_activeIds: "finite (activeIds items)"
proof -
  have "activeIds items \<subseteq> (\<lambda>c. the (c_Id c)) ` set items" by (auto simp: activeIds_def)
  then show ?thesis by (rule finite_subset) simp
qed

lemma recordActive_dom:
  "recordActive items (names0, parents0) = Inr (names, parents) \<Longrightarrow>
   dom names = dom names0 \<union> activeIds items \<and> dom parents = dom parents0 \<union> activeIds items"
proof (induction items arbitrary: names0 parents0)
  case Nil
  then show ?case by (simp add: activeIds_def)
next
  case (Cons c items)
  show ?case
  proof (cases "c_LifecycleState c = Active")
    case True
    with Cons.prems obtain cid name parent where
      f: "c_Id c = Some cid" "c_Name c = Some name" "c_CompartmentId c = Some parent"
      and r: "recordActive items (names0(cid \<mapsto> name), parents0(cid \<mapsto> parent)) = Inr (names, parents)"
      by (auto split: option.splits)
    from Cons.IH [OF r] True f show ?thesis by (auto simp: activeIds_Cons)
  next
    case False
    with Cons.prems have "recordActive items (names0, parents0) = Inr (names, parents)" by simp
    from Cons.IH [OF this] False show ?thesis by (simp add: activeIds_Cons)
  qed
qed

lemma recordActive_append:
  "recordActive (xs @ ys) maps =
     (case recordActive xs maps of Inl e \<Rightarrow> Inl e | Inr maps2 \<Rightarrow> recordActive ys maps2)"
proof (induction xs arbitrary: maps)
  case Nil
  show ?case by simp
next
  case (Cons c xs)
  obtain names0 parents0 where m: "maps = (names0, parents0)" by (cases maps)
  show ?case unfolding m using Cons.IH by (auto split: option.splits)
qed

text \<open>Against a service that serves the pages \<open>n, \<dots>, n + k\<close>, the paging loop records
  the items of all of them.\<close>

lemma listCompartments_loop_served:
  assumes L: "ListCompartments sdk = (\<lambda>client req n. (Inr (pages n), Suc n))"
  shows "(\<forall>i<k. lc_OpcNextPage (pages (n + i)) \<noteq> None) \<Longrightarrow>
         lc_OpcNextPage (pages (n + k)) = None \<Longrightarrow>
         recordActive (concat (map (\<lambda>i. lc_Items (pages i)) [n..<n + Suc k])) maps = Inr result \<Longrightarrow>
         \<exists>w2. listCompartments_loop sdk client rootCompartment page maps \<lparr>cloud = n, trace = tr\<rparr> =
                 Some (Inr result, w2)"
proof (induction k arbitrary: n page maps tr)
  case 0
  then show ?case
    by (subst listCompartments_loop.simps) (simp add: L Let_def)
next
  case (Suc k)
  have "lc_OpcNextPage (pages n) \<noteq> None"
    using Suc.prems(1) by (metis add.right_neutral zero_less_Suc)
  then obtain c where c: "lc_OpcNextPage (pages n) = Some c" by auto
  have sp: "[n..<n + Suc (Suc k)] = n # [Suc n..<Suc n + Suc k]"
    by (simp add: upt_conv_Cons)
  from Suc.prems(3) obtain maps2 where
    m2: "recordActive (lc_Items (pages n)) maps = Inr maps2"
    and rest: "recordActive (concat (map (\<lambda>i. lc_Items (pages i)) [Suc n..<Suc n + Suc k])) maps2 =
               Inr result"
    unfolding sp by (auto simp: recordActive_append split: sum.splits)
  have a: "\<forall>i<k. lc_OpcNextPage (pages (Suc n + i)) \<noteq> None"
    using Suc.prems(1) by (metis Suc_less_eq add_Suc_right add_Suc)
  have b: "lc_OpcNextPage (pages (Suc n + k)) = None"
    using Suc.prems(2) by simp
  from Suc.IH [OF a b rest] obtain w2 where
    "listCompartments_loop sdk client rootCompartment (Some c) maps2
       \<lparr>cloud = Suc n,
        trace = (tr @ [ListCompartmentsCall client
                        \<lparr>lc_CompartmentId = Some rootCompartment, lc_Page = page,
                         lc_AccessLevel = ''ANY'', lc_CompartmentIdInSubtree = Some True\<rparr>])\<rparr> =
     Some (Inr result, w2)"
    by blast
  then show ?case
    by (subst listCompartments_loop.simps) (simp add: L Let_def m2 c)
qed

text \<open>The final loop: each entry of the result is the full name of its identifier; each
  full name is a key; and a full name that only one identifier has leads to it.\<close>

lemma foldl_invert:
  "(foldl (\<lambda>m (c, fn). m(fn \<mapsto> c)) m0 es) k = Some c \<Longrightarrow> m0 k = Some c \<or> (c, k) \<in> set es"
proof (induction es arbitrary: m0)
  case Nil
  then show ?case by simp
next
  case (Cons e es)
  obtain c1 k1 where e: "e = (c1, k1)" by (cases e)
  from Cons.prems have "(foldl (\<lambda>m (c, fn). m(fn \<mapsto> c)) (m0(k1 \<mapsto> c1)) es) k = Some c"
    unfolding e by (simp only: foldl_Cons prod.case)
  from Cons.IH [OF this] have "(m0(k1 \<mapsto> c1)) k = Some c \<or> (c, k) \<in> set es" .
  then show ?case unfolding e by (cases "k = k1") auto
qed

lemma foldl_invert_key:
  "k \<in> snd ` set es \<or> k \<in> dom m0 \<Longrightarrow> k \<in> dom (foldl (\<lambda>m (c, fn). m(fn \<mapsto> c)) m0 es)"
proof (induction es arbitrary: m0)
  case Nil
  then show ?case by simp
next
  case (Cons e es)
  obtain c1 k1 where e: "e = (c1, k1)" by (cases e)
  from Cons.prems have "k \<in> snd ` set es \<or> k \<in> dom (m0(k1 \<mapsto> c1))"
    unfolding e by auto
  from Cons.IH [OF this] show ?case unfolding e by (simp only: foldl_Cons prod.case)
qed

lemma invert_entry:
  "invert full ks k = Some c \<Longrightarrow> full c = Some k"
  unfolding invert_def by (drule foldl_invert) (auto simp: set_range_map)

lemma invert_key:
  assumes "full c = Some k" and "dom full \<subseteq> set ks"
  shows "\<exists>c'. invert full ks k = Some c' \<and> full c' = Some k"
proof -
  from assms have "(c, k) \<in> set (range_map full ks)" by (auto simp: set_range_map)
  then have "k \<in> snd ` set (range_map full ks) \<or> k \<in> dom (Map.empty :: string \<rightharpoonup> string)"
    by force
  from foldl_invert_key [OF this] obtain c' where "invert full ks k = Some c'"
    unfolding invert_def by blast
  with invert_entry [OF this] show ?thesis by blast
qed

subsection \<open>getCompartments\<close>

lemma recorded_maps:
  assumes "recordActive items ([t \<mapsto> tenancyName], [t \<mapsto> []]) = Inr (names, parents)"
  shows "dom names = insert t (activeIds items)" and "dom parents = dom names"
    and "finite (dom parents)" and "t \<in> dom parents"
proof -
  from recordActive_dom [OF assms]
  have n: "dom names = insert t (activeIds items)" and p: "dom parents = insert t (activeIds items)"
    by auto
  show "dom names = insert t (activeIds items)" by (rule n)
  show "dom parents = dom names" using n p by simp
  show "finite (dom parents)" unfolding p by (simp add: finite_activeIds)
  show "t \<in> dom parents" unfolding p by simp
qed

lemma start_pathsInv:
  "pathsInv names parents t [t \<mapsto> go_lookup names t @ tenancy_suffix]"
  by (simp add: pathsInv_def)

lemma resolve_loop_recorded:
  assumes "recordActive items ([t \<mapsto> tenancyName], [t \<mapsto> []]) = Inr (names, parents)"
    and "finiteTree parents t"
    and "\<forall>n. dom parents \<subseteq> set (order n)"
  shows "\<exists>full. resolve_loop names parents t order 0 [t \<mapsto> go_lookup names t @ tenancy_suffix] =
                 Some full \<and> dom full = dom names"
proof -
  note m = recorded_maps [OF assms(1)]
  have "t \<in> dom [t \<mapsto> go_lookup names t @ tenancy_suffix]"
    and "dom [t \<mapsto> go_lookup names t @ tenancy_suffix] \<subseteq> dom parents"
    using m(4) by simp_all
  from resolve_loop_returns [OF m(3) m(2) [symmetric] assms(2,3) this, of 0]
  show ?thesis using m(2) by auto
qed

text \<open>Claim C7. For every listing whose active compartments, recorded under the tenancy,
  form a tree (each parent chain reaches the tenancy), and whatever order the passes
  visit the map in: the name-resolution loop returns, with every recorded identifier
  resolved; and every pass that starts with an entry unresolved resolves at least one
  more, never anything outside the recorded identifiers.\<close>

theorem resolve_loop_terminates:
  assumes "recordActive items ([t \<mapsto> tenancyName], [t \<mapsto> []]) = Inr (names, parents)"
    and "finiteTree parents t"
    and "\<forall>n. dom parents \<subseteq> set (order n)"
  shows "(\<exists>full. resolve_loop names parents t order 0 [t \<mapsto> go_lookup names t @ tenancy_suffix] =
                   Some full \<and> dom full = dom names) \<and>
         (\<forall>n full. t \<in> dom full \<and> dom full \<subset> dom names \<longrightarrow>
            dom full \<subset> dom (resolve_pass names parents t (order n) full) \<and>
            dom (resolve_pass names parents t (order n) full) \<subseteq> dom names)"
proof (intro conjI allI impI)
  show "\<exists>full. resolve_loop names parents t order 0 [t \<mapsto> go_lookup names t @ tenancy_suffix] =
                 Some full \<and> dom full = dom names"
    by (rule resolve_loop_recorded [OF assms])
next
  fix n and full :: "string \<rightharpoonup> string"
  note m = recorded_maps [OF assms(1)]
  assume h: "t \<in> dom full \<and> dom full \<subset> dom names"
  from assms(3) have o: "dom parents \<subseteq> set (order n)" by simp
  from h m(2) have t: "t \<in> dom full" and sub: "dom full \<subset> dom parents" by simp_all
  show "dom full \<subset> dom (resolve_pass names parents t (order n) full)"
    by (rule resolve_pass_progress [OF assms(2) o t sub])
  from sub have "dom full \<subseteq> dom parents" by blast
  from resolve_pass_dom [OF this] m(2)
  show "dom (resolve_pass names parents t (order n) full) \<subseteq> dom names" by simp
qed

lemma smallTree_recorded:
  "recordActive smallTree ([''t'' \<mapsto> ''T''], [''t'' \<mapsto> []]) = Inr (smallNames, smallParents)"
  by (simp add: smallTree_def cmpt_def smallNames_def smallParents_def)

lemma smallTree_tree: "finiteTree smallParents ''t''"
proof -
  have r: "reachesRoot smallParents ''t'' ''t''" by (rule reachesRoot.root)
  have "smallParents ''c1'' = Some ''t''" by (simp add: smallParents_def)
  from reachesRoot.child [OF this r] have c1: "reachesRoot smallParents ''t'' ''c1''" .
  have "smallParents ''c2'' = Some ''c1''" by (simp add: smallParents_def)
  from reachesRoot.child [OF this c1] have c2: "reachesRoot smallParents ''t'' ''c2''" .
  have "dom smallParents = {''t'', ''c1'', ''c2''}" by (auto simp: smallParents_def)
  with r c1 c2 show ?thesis by (simp add: finiteTree_def)
qed

lemma smallOrder_covers:
  "\<forall>n. dom smallParents \<subseteq> set (resolveOrder smallOrder n)"
  "dom smallParents \<subseteq> set (invertOrder smallOrder)"
  by (auto simp: smallParents_def smallOrder_def)

text \<open>The theorem at the listing \<open>smallTree\<close>, visited in the order \<open>c2, c1, t\<close>.\<close>

theorem resolve_loop_terminates_witness:
  "recordActive smallTree ([''t'' \<mapsto> ''T''], [''t'' \<mapsto> []]) = Inr (smallNames, smallParents) \<and>
   finiteTree smallParents ''t'' \<and>
   dom smallParents \<subseteq> set (resolveOrder smallOrder 0) \<and>
   (\<exists>full. resolve_loop smallNames smallParents ''t'' (resolveOrder smallOrder) 0
             [''t'' \<mapsto> go_lookup smallNames ''t'' @ tenancy_suffix] = Some full \<and>
           dom full = dom smallNames) \<and>
   dom [''t'' \<mapsto> ''T''] \<subset> dom (resolve_pass smallNames smallParents ''t'' (resolveOrder smallOrder 0)
                                 [''t'' \<mapsto> ''T''])"
proof -
  have s: "''t'' \<in> dom [''t'' \<mapsto> ''T''] \<and> dom [''t'' \<mapsto> ''T''] \<subset> dom smallNames"
    by (auto simp: smallNames_def)
  from resolve_loop_terminates [OF smallTree_recorded smallTree_tree smallOrder_covers(1)] s
  have "(\<exists>full. resolve_loop smallNames smallParents ''t'' (resolveOrder smallOrder) 0
             [''t'' \<mapsto> go_lookup smallNames ''t'' @ tenancy_suffix] = Some full \<and>
           dom full = dom smallNames)"
    and "dom [''t'' \<mapsto> ''T''] \<subset> dom (resolve_pass smallNames smallParents ''t'' (resolveOrder smallOrder 0)
                                 [''t'' \<mapsto> ''T''])"
    by blast+
  with smallTree_recorded smallTree_tree smallOrder_covers(1) show ?thesis by blast
qed

subsection \<open>Series names\<close>

lemma foldl_no_match:
  "\<forall>k\<in>fst ` set dimensions. \<not> re_MatchString k \<Longrightarrow>
   foldl (\<lambda>tName (key, dimension).
            if re_MatchString key then sprintf_braces tName dimension else tName) t dimensions = t"
  by (induction dimensions arbitrary: t) auto

lemma joinWith_Cons: "joinWith sep (x # xs) = x @ concat (map (\<lambda>v. sep @ v) xs)"
  by (induction xs arbitrary: x) auto

lemma foldl_join_nonempty:
  "acc \<noteq> [] \<Longrightarrow>
   foldl (\<lambda>preDisplayName dimensionKey.
            if preDisplayName = [] then f dimensionKey
            else preDisplayName @ '', '' @ f dimensionKey) acc ks =
   acc @ concat (map (\<lambda>k. '', '' @ f k) ks)"
  by (induction ks arbitrary: acc) auto

lemma foldl_join:
  "foldl (\<lambda>preDisplayName dimensionKey.
            if preDisplayName = [] then f dimensionKey
            else preDisplayName @ '', '' @ f dimensionKey) [] ks =
   joinWith '', '' (dropWhile (\<lambda>v. v = []) (map f ks))"
proof (induction ks)
  case Nil
  then show ?case by simp
next
  case (Cons k ks)
  show ?case
  proof (cases "f k = []")
    case True
    then show ?thesis using Cons.IH by simp
  next
    case False
    then show ?thesis
      by (simp add: foldl_join_nonempty joinWith_Cons comp_def)
  qed
qed

lemma seriesName_fallback:
  assumes "\<forall>k\<in>fst ` set dimensions. \<not> re_MatchString k"
  shows "seriesName itemName dimensions =
         itemName @ '', {'' @ joinWith '', '' (dropWhile (\<lambda>v. v = []) (valuesByKey dimensions)) @ ''}''"
  by (simp add: seriesName_def Let_def foldl_no_match [OF assms] foldl_join sprintf_braces_def
      valuesByKey_def)

lemma valuesByKey_nonempty:
  assumes "\<forall>v\<in>snd ` set dimensions. v \<noteq> []"
  shows "\<forall>v\<in>set (valuesByKey dimensions). v \<noteq> []"
proof
  fix v
  assume "v \<in> set (valuesByKey dimensions)"
  then obtain k where k: "k \<in> fst ` set dimensions" and v: "v = go_lookup (map_of dimensions) k"
    by (auto simp: valuesByKey_def)
  from k obtain u where u: "map_of dimensions k = Some u"
    by (metis map_of_eq_None_iff not_Some_eq)
  then have "(k, u) \<in> set dimensions" by (rule map_of_SomeD)
  then have "u \<in> snd ` set dimensions" by force
  with assms have "u \<noteq> []" by blast
  with u v show "v \<noteq> []" by (simp add: go_lookup_def)
qed

lemma dropWhile_none: "\<forall>v\<in>set vs. \<not> P v \<Longrightarrow> dropWhile P vs = vs"
  by (cases vs) auto

text \<open>Every series that \<^verbatim>\<open>queryResponse\<close> builds is named by \<open>seriesName\<close>.\<close>

lemma seriesOfItems_names:
  "seriesOfItems items series = Inr result \<Longrightarrow>
   map Name result =
     map Name series @ map (\<lambda>item. seriesName (the (md_Name item)) (md_Dimensions item)) items"
  by (induction items arbitrary: series) (auto split: option.splits sum.splits)

text \<open>The two items that the specification names get the names it gives, in whichever
  order the map of the second one is visited.\<close>

lemma seriesName_examples:
  "seriesOfItems [cpuItem [(''resourceDisplayName'', ''vm1'')]] [] =
     Inr [\<lparr>Name = ''CpuUtilization, {vm1}'', Points = []\<rparr>]"
  "seriesOfItems [cpuItem [(''availabilityDomain'', ''AD-1''), (''shape'', ''VM.Standard'')]] [] =
     Inr [\<lparr>Name = ''CpuUtilization, {AD-1, VM.Standard}'', Points = []\<rparr>]"
  "seriesOfItems [cpuItem [(''shape'', ''VM.Standard''), (''availabilityDomain'', ''AD-1'')]] [] =
     Inr [\<lparr>Name = ''CpuUtilization, {AD-1, VM.Standard}'', Points = []\<rparr>]"
  by (simp_all add: cpuItem_def seriesName_def sprintf_braces_def isWordChar_def go_lookup_def)

text \<open>Where no dimension value is empty, the fallback name is the join of all the values
  in the order of their sorted keys.\<close>

lemma seriesName_join:
  assumes "\<forall>k\<in>fst ` set dimensions. \<not> re_MatchString k"
    and "\<forall>v\<in>snd ` set dimensions. v \<noteq> []"
  shows "seriesName itemName dimensions =
           itemName @ '', {'' @ joinWith '', '' (valuesByKey dimensions) @ ''}''"
proof -
  from assms(2) have "dropWhile (\<lambda>v. v = []) (valuesByKey dimensions) = valuesByKey dimensions"
    by (intro dropWhile_none valuesByKey_nonempty)
  with assms(1) show ?thesis by (simp add: seriesName_fallback)
qed

text \<open>Claim C6 on the code. For the item \<open>{Name: "M", Dimensions: {"a": "", "b": "x"}}\<close>,
  none of whose keys matches the pattern, the values sorted by key are \<open>""\<close> and \<open>"x"\<close>
  and their join by \<open>", "\<close> gives the name \<open>"M, {, x}"\<close>; the code returns \<open>"M, {x}"\<close>.
  The loop takes "the name so far is empty" for "this is the first value", so an empty
  value at the start leaves no separator, while an empty value further on does: for
  \<open>{"a": "x", "b": "", "c": "y"}\<close> the code returns the full join \<open>"M, {x, , y}"\<close>.\<close>

theorem seriesName_empty_value:
  "\<not> re_MatchString ''a'' \<and> \<not> re_MatchString ''b'' \<and> \<not> re_MatchString ''c'' \<and>
   valuesByKey [(''a'', []), (''b'', ''x'')] = [[], ''x''] \<and>
   ''M'' @ '', {'' @ joinWith '', '' (valuesByKey [(''a'', []), (''b'', ''x'')]) @ ''}'' = ''M, {, x}'' \<and>
   seriesOfItems [\<lparr>md_Name = Some ''M'', md_Dimensions = [(''a'', []), (''b'', ''x'')],
                   md_AggregatedDatapoints = []\<rparr>] [] =
     Inr [\<lparr>Name = ''M, {x}'', Points = []\<rparr>] \<and>
   seriesOfItems [\<lparr>md_Name = Some ''M'', md_Dimensions = [(''a'', ''x''), (''b'', []), (''c'', ''y'')],
                   md_AggregatedDatapoints = []\<rparr>] [] =
     Inr [\<lparr>Name = ''M, {x, , y}'', Points = []\<rparr>]"
  by (simp add: seriesName_def sprintf_braces_def isWordChar_def go_lookup_def valuesByKey_def)

text \<open>Against an identity service that serves the listing, \<^verbatim>\<open>getCompartments\<close> is
  the name-resolution loop on the recorded maps, followed by the final loop.\<close>

lemma getCompartments_served:
  assumes srv: "compartmentsServed sdk tenancyName pages N"
    and rec: "recordActive (listed pages N) ([t \<mapsto> tenancyName], [t \<mapsto> []]) = Inr (names, parents)"
  shows "\<exists>o2 w2. getCompartments sdk ro region t o1 \<lparr>cloud = 0, trace = tr\<rparr> =
           map_option (\<lambda>full. (Inr (invert full (invertOrder ro)), o2, w2))
             (resolve_loop names parents t (resolveOrder ro) 0
                [t \<mapsto> go_lookup names t @ tenancy_suffix])"
proof -
  from srv have G: "GetTenancy sdk = (\<lambda>client tenancyId n. (Inr \<lparr>gt_Name = Some tenancyName\<rparr>, n))"
    and L: "ListCompartments sdk = (\<lambda>client req n. (Inr (pages n), Suc n))"
    and cur: "\<forall>i<N. lc_OpcNextPage (pages (0 + i)) \<noteq> None"
    and last: "lc_OpcNextPage (pages (0 + N)) = None"
    by (simp_all add: compartmentsServed_def)
  let ?client = "(identityClient o1)\<lparr>ic_region := StringToRegion sdk region\<rparr>"
  let ?tr = "tr @ [GetTenancyCall (identityClient o1) t]"
  from rec have rec': "recordActive (concat (map (\<lambda>i. lc_Items (pages i)) [0..<0 + Suc N]))
                         ([t \<mapsto> tenancyName], [t \<mapsto> []]) = Inr (names, parents)"
    by (simp add: listed_def)
  from listCompartments_loop_served [OF L cur last rec', of ?client t None ?tr]
  obtain w2 where loop: "listCompartments_loop sdk ?client t None
                           ([t \<mapsto> tenancyName], [t \<mapsto> []]) \<lparr>cloud = 0, trace = ?tr\<rparr> =
                         Some (Inr (names, parents), w2)"
    by blast
  show ?thesis
    by (intro exI [of _ "o1\<lparr>identityClient := ?client\<rparr>"] exI [of _ w2])
       (simp add: getCompartments_def G Let_def loop split: option.splits)
qed

text \<open>What holds of the map that the name-resolution loop returns.\<close>

lemma resolve_loop_result:
  assumes rec: "recordActive items ([t \<mapsto> tenancyName], [t \<mapsto> []]) = Inr (names, parents)"
    and r: "resolve_loop names parents t order 0 [t \<mapsto> go_lookup names t @ tenancy_suffix] = Some full"
  shows "fullPaths names parents t full" and "pathsInv names parents t full"
proof -
  note m = recorded_maps [OF rec]
  let ?I = "\<lambda>f. pathsInv names parents t f \<and> dom f \<subseteq> dom parents"
  have start: "?I [t \<mapsto> go_lookup names t @ tenancy_suffix]"
    using m(4) by (simp add: start_pathsInv)
  have step: "\<And>ks f. ?I f \<Longrightarrow> ?I (resolve_pass names parents t ks f)"
    by (simp add: resolve_pass_pathsInv resolve_pass_dom)
  from resolve_loop_invariant [OF r, of ?I, OF start step]
  have inv: "pathsInv names parents t full" and sub: "dom full \<subseteq> dom parents"
    and stop: "\<not> card (dom full) < card (dom names)"
    by blast+
  from sub m(2) have s: "dom full \<subseteq> dom names" by simp
  from m(2,3) have "finite (dom names)" by simp
  with s stop have "dom full = dom names"
    by (metis card_seteq not_le_imp_less)
  from pathsInv_fullPaths [OF inv this] show "fullPaths names parents t full" .
  show "pathsInv names parents t full" by (rule inv)
qed

lemma invert_keys:
  assumes inv: "pathsInv names parents t full" and k: "invert full ks key = Some c"
  shows "key = go_lookup names t @ tenancy_suffix \<or> take 1 key = ''/''"
proof -
  from invert_entry [OF k] have f: "full c = Some key" .
  show ?thesis
  proof (cases "c = t")
    case True
    with inv f show ?thesis by (simp add: pathsInv_def)
  next
    case False
    with inv f show ?thesis unfolding pathsInv_def by blast
  qed
qed

lemma invert_inj:
  assumes d: "dom full = D" and o: "D \<subseteq> set ks" and fin: "finite D" and inj: "inj_on full D"
  shows "(\<forall>c\<in>D. invert full ks (the (full c)) = Some c) \<and> card (dom (invert full ks)) = card D"
proof -
  have a: "invert full ks (the (full c)) = Some c" if c: "c \<in> D" for c
  proof -
    from c d obtain k where k: "full c = Some k" by auto
    from d o have "dom full \<subseteq> set ks" by simp
    from invert_key [of full c k ks, OF k this]
    obtain c' where c': "invert full ks k = Some c'" "full c' = Some k"
      by auto
    from c'(2) d have cD: "c' \<in> D" by auto
    from k c'(2) have eq: "full c' = full c" by simp
    have "c' = c" by (rule inj_onD [OF inj eq cD c])
    with c'(1) k show ?thesis by simp
  qed
  have "dom (invert full ks) = (\<lambda>c. the (full c)) ` D"
  proof (intro set_eqI iffI)
    fix k
    assume "k \<in> dom (invert full ks)"
    then obtain c where "invert full ks k = Some c" by auto
    from invert_entry [OF this] d show "k \<in> (\<lambda>c. the (full c)) ` D" by force
  next
    fix k
    assume "k \<in> (\<lambda>c. the (full c)) ` D"
    then obtain c where "c \<in> D" "k = the (full c)" by auto
    with a [of c] show "k \<in> dom (invert full ks)" by auto
  qed
  moreover have "inj_on (\<lambda>c. the (full c)) D"
  proof (rule inj_onI)
    fix x y
    assume x: "x \<in> D" and y: "y \<in> D" and xy: "the (full x) = the (full y)"
    from x y xy d have eq: "full x = full y" by (metis domD option.sel)
    show "x = y" by (rule inj_onD [OF inj eq x y])
  qed
  ultimately have "card (dom (invert full ks)) = card D" by (simp add: card_image)
  with a show ?thesis by blast
qed

text \<open>Claim C3, as amended. For every compartment listing (served in pages by the identity
  service) whose active compartments form a tree under the tenancy, and whatever order
  the maps are visited in, \<^verbatim>\<open>getCompartments\<close> returns a map \<open>m\<close> from full path names
  to identifiers such that, for the full path names \<open>full\<close> of the tenancy and of the
  active compartments (the tenancy has its own label, its name followed by
  \<open>(tenancy, shown as '/')\<close>): every entry of \<open>m\<close> is the full path name of an active
  identifier together with that identifier; the full path name of every active
  identifier is a key of \<open>m\<close>; every key of \<open>m\<close> other than the label of the tenancy
  begins with \<open>/\<close>; and when no two identifiers have the same full path name, \<open>m\<close> has
  exactly one entry for each of them.\<close>

theorem getCompartments_tree:
  assumes "compartmentsServed sdk tenancyName pages N"
    and "recordActive (listed pages N) ([t \<mapsto> tenancyName], [t \<mapsto> []]) = Inr (names, parents)"
    and "finiteTree parents t"
    and "\<forall>n. dom parents \<subseteq> set (resolveOrder ro n)"
    and "dom parents \<subseteq> set (invertOrder ro)"
  shows "\<exists>m full o2 w2.
           getCompartments sdk ro region t o1 \<lparr>cloud = 0, trace = tr\<rparr> = Some (Inr m, o2, w2) \<and>
           dom names = insert t (activeIds (listed pages N)) \<and>
           fullPaths names parents t full \<and>
           (\<forall>key cmptId. m key = Some cmptId \<longrightarrow> full cmptId = Some key) \<and>
           (\<forall>cmptId\<in>dom names. the (full cmptId) \<in> dom m) \<and>
           (\<forall>key\<in>dom m. key = go_lookup names t @ tenancy_suffix \<or> take 1 key = ''/'') \<and>
           (inj_on full (dom names) \<longrightarrow>
              (\<forall>cmptId\<in>dom names. m (the (full cmptId)) = Some cmptId) \<and>
              card (dom m) = card (dom names))"
proof -
  note m = recorded_maps [OF assms(2)]
  from resolve_loop_recorded [OF assms(2,3,4)] obtain full where
    r: "resolve_loop names parents t (resolveOrder ro) 0
          [t \<mapsto> go_lookup names t @ tenancy_suffix] = Some full"
    and d: "dom full = dom names"
    by blast
  from getCompartments_served [OF assms(1,2), of ro region o1 tr] r obtain o2 w2 where
    g: "getCompartments sdk ro region t o1 \<lparr>cloud = 0, trace = tr\<rparr> =
          Some (Inr (invert full (invertOrder ro)), o2, w2)"
    by auto
  note res = resolve_loop_result [OF assms(2) r]
  let ?m = "invert full (invertOrder ro)"
  from d m(2) assms(5) have o: "dom full \<subseteq> set (invertOrder ro)" by simp
  have e: "\<forall>key cmptId. ?m key = Some cmptId \<longrightarrow> full cmptId = Some key"
    by (auto dest: invert_entry)
  have k: "\<forall>cmptId\<in>dom names. the (full cmptId) \<in> dom ?m"
  proof
    fix c
    assume "c \<in> dom names"
    with d obtain key where key: "full c = Some key" by auto
    from invert_key [of full c key "invertOrder ro", OF key o] key
    show "the (full c) \<in> dom ?m" by auto
  qed
  have s: "\<forall>key\<in>dom ?m. key = go_lookup names t @ tenancy_suffix \<or> take 1 key = ''/''"
    by (auto dest: invert_keys [OF res(2)])
  have i: "inj_on full (dom names) \<longrightarrow>
              (\<forall>cmptId\<in>dom names. ?m (the (full cmptId)) = Some cmptId) \<and>
              card (dom ?m) = card (dom names)"
  proof
    assume inj: "inj_on full (dom names)"
    from m(2,3) have fin: "finite (dom names)" by simp
    from assms(5) m(2) have "dom names \<subseteq> set (invertOrder ro)" by simp
    from invert_inj [OF d this fin inj]
    show "(\<forall>cmptId\<in>dom names. ?m (the (full cmptId)) = Some cmptId) \<and>
          card (dom ?m) = card (dom names)" .
  qed
  from g m(1) res(1) e k s i show ?thesis by blast
qed

lemma served_onePage: "compartmentsServed (sdkIdentity tenancyName (onePage items)) tenancyName (onePage items) 0"
  by (simp add: compartmentsServed_def sdkIdentity_def onePage_def)

lemma listed_onePage: "listed (onePage items) 0 = items"
  by (simp add: listed_def onePage_def)

text \<open>The theorem at the listing \<open>smallTree\<close>, served in one page.\<close>

theorem getCompartments_tree_witness:
  "compartmentsServed (sdkIdentity ''T'' (onePage smallTree)) ''T'' (onePage smallTree) 0 \<and>
   recordActive (listed (onePage smallTree) 0) ([''t'' \<mapsto> ''T''], [''t'' \<mapsto> []]) =
     Inr (smallNames, smallParents) \<and>
   finiteTree smallParents ''t'' \<and>
   dom smallParents \<subseteq> set (resolveOrder smallOrder 0) \<and>
   dom smallParents \<subseteq> set (invertOrder smallOrder) \<and>
   (\<exists>m full o2 w2.
      getCompartments (sdkIdentity ''T'' (onePage smallTree)) smallOrder ''r'' ''t'' NewOCIDatasource
        \<lparr>cloud = 0, trace = []\<rparr> = Some (Inr m, o2, w2) \<and>
      fullPaths smallNames smallParents ''t'' full \<and>
      list_all (\<lambda>cmptId. the (full cmptId) \<in> dom m) [''t'', ''c1'', ''c2''])"
proof -
  have rec: "recordActive (listed (onePage smallTree) 0) ([''t'' \<mapsto> ''T''], [''t'' \<mapsto> []]) =
             Inr (smallNames, smallParents)"
    by (simp add: listed_onePage smallTree_recorded)
  have dn: "dom smallNames = {''t'', ''c1'', ''c2''}" by (auto simp: smallNames_def)
  have o1: "dom smallParents \<subseteq> set (resolveOrder smallOrder 0)"
    using smallOrder_covers(1) by blast
  let ?B = "\<lambda>m full o2 w2.
      getCompartments (sdkIdentity ''T'' (onePage smallTree)) smallOrder ''r'' ''t'' NewOCIDatasource
        \<lparr>cloud = 0, trace = []\<rparr> = Some (Inr m, o2, w2) \<and>
      dom smallNames = insert ''t'' (activeIds (listed (onePage smallTree) 0)) \<and>
      fullPaths smallNames smallParents ''t'' full \<and>
      (\<forall>key cmptId. m key = Some cmptId \<longrightarrow> full cmptId = Some key) \<and>
      (\<forall>cmptId\<in>dom smallNames. the (full cmptId) \<in> dom m) \<and>
      (\<forall>key\<in>dom m. key = go_lookup smallNames ''t'' @ tenancy_suffix \<or> take 1 key = ''/'') \<and>
      (inj_on full (dom smallNames) \<longrightarrow>
         (\<forall>cmptId\<in>dom smallNames. m (the (full cmptId)) = Some cmptId) \<and>
         card (dom m) = card (dom smallNames))"
  have "\<exists>m full o2 w2. ?B m full o2 w2"
    by (rule getCompartments_tree [OF served_onePage rec smallTree_tree smallOrder_covers,
          of "''r''" NewOCIDatasource "[]"])
  then obtain m where "\<exists>full o2 w2. ?B m full o2 w2" ..
  then obtain full where "\<exists>o2 w2. ?B m full o2 w2" ..
  then obtain o2 where "\<exists>w2. ?B m full o2 w2" ..
  then obtain w2 where B: "?B m full o2 w2" ..
  note g = B [THEN conjunct1]
    and fp = B [THEN conjunct2, THEN conjunct2, THEN conjunct1]
    and k = B [THEN conjunct2, THEN conjunct2, THEN conjunct2, THEN conjunct2, THEN conjunct1]
  from k have l: "list_all (\<lambda>cmptId. the (full cmptId) \<in> dom m) [''t'', ''c1'', ''c2'']"
    by (simp add: dn)
  have ex: "\<exists>m full o2 w2.
      getCompartments (sdkIdentity ''T'' (onePage smallTree)) smallOrder ''r'' ''t'' NewOCIDatasource
        \<lparr>cloud = 0, trace = []\<rparr> = Some (Inr m, o2, w2) \<and>
      fullPaths smallNames smallParents ''t'' full \<and>
      list_all (\<lambda>cmptId. the (full cmptId) \<in> dom m) [''t'', ''c1'', ''c2'']"
    by (intro exI [of _ m] exI [of _ full] exI [of _ o2] exI [of _ w2] conjI g fp l)
  show ?thesis
    by (intro conjI served_onePage rec smallTree_tree o1 smallOrder_covers(2) ex)
qed

lemma activeIds_Nil: "activeIds [] = {}"
  by (simp add: activeIds_def)

lemma twins_recorded:
  "recordActive (listed (onePage twins) 0) ([''t'' \<mapsto> ''T''], [''t'' \<mapsto> []]) =
   Inr ([''t'' \<mapsto> ''T'', ''c1'' \<mapsto> ''a'', ''c2'' \<mapsto> ''a''],
        [''t'' \<mapsto> [], ''c1'' \<mapsto> ''t'', ''c2'' \<mapsto> ''t''])"
  by (simp add: listed_onePage twins_def cmpt_def)

lemma twins_pass:
  "resolve_pass [''t'' \<mapsto> ''T'', ''c1'' \<mapsto> ''a'', ''c2'' \<mapsto> ''a'']
     [''t'' \<mapsto> [], ''c1'' \<mapsto> ''t'', ''c2'' \<mapsto> ''t''] ''t'' [''c2'', ''c1'', ''t'']
     [''t'' \<mapsto> go_lookup [''t'' \<mapsto> ''T'', ''c1'' \<mapsto> ''a'', ''c2'' \<mapsto> ''a''] ''t'' @ tenancy_suffix] =
   [''t'' \<mapsto> ''T'' @ tenancy_suffix, ''c2'' \<mapsto> ''/a'', ''c1'' \<mapsto> ''/a'']"
  by (simp add: resolve_pass_def range_map_def resolve_entry_def go_lookup_def)

lemma twins_first:
  "card (dom [''t'' \<mapsto> go_lookup [''t'' \<mapsto> ''T'', ''c1'' \<mapsto> ''a'', ''c2'' \<mapsto> ''a''] ''t'' @ tenancy_suffix]) <
   card (dom [''t'' \<mapsto> ''T'', ''c1'' \<mapsto> ''a'', ''c2'' \<mapsto> ''a''])"
  by simp

lemma twins_second:
  "\<not> card (dom [''t'' \<mapsto> ''T'' @ tenancy_suffix, ''c2'' \<mapsto> ''/a'', ''c1'' \<mapsto> ''/a'']) <
     card (dom [''t'' \<mapsto> ''T'', ''c1'' \<mapsto> ''a'', ''c2'' \<mapsto> ''a''])"
  by simp

lemma smallOrder_resolve: "resolveOrder smallOrder n = [''c2'', ''c1'', ''t'']"
  by (simp add: smallOrder_def)

lemma twins_loop:
  "resolve_loop [''t'' \<mapsto> ''T'', ''c1'' \<mapsto> ''a'', ''c2'' \<mapsto> ''a'']
     [''t'' \<mapsto> [], ''c1'' \<mapsto> ''t'', ''c2'' \<mapsto> ''t''] ''t'' (resolveOrder smallOrder) 0
     [''t'' \<mapsto> go_lookup [''t'' \<mapsto> ''T'', ''c1'' \<mapsto> ''a'', ''c2'' \<mapsto> ''a''] ''t'' @ tenancy_suffix] =
   Some [''t'' \<mapsto> ''T'' @ tenancy_suffix, ''c2'' \<mapsto> ''/a'', ''c1'' \<mapsto> ''/a'']"
  apply (subst resolve_loop.simps)
  apply (simp only: twins_first if_True smallOrder_resolve twins_pass)
  apply (subst resolve_loop.simps)
  apply (simp only: twins_second if_False)
  done

lemma twins_invert:
  "invert [''t'' \<mapsto> ''T'' @ tenancy_suffix, ''c2'' \<mapsto> ''/a'', ''c1'' \<mapsto> ''/a''] (invertOrder smallOrder) =
   [''T'' @ tenancy_suffix \<mapsto> ''t'', ''/a'' \<mapsto> ''c2'']"
  by (simp add: invert_def range_map_def smallOrder_def tenancy_suffix_def)

text \<open>What \<^verbatim>\<open>getCompartments\<close> returns for the listing \<open>twins\<close>: two entries for the
  three identifiers \<open>t\<close>, \<open>c1\<close> and \<open>c2\<close>.\<close>

lemma twins_result:
  "map_option fst
     (getCompartments (sdkIdentity ''T'' (onePage twins)) smallOrder ''r'' ''t'' NewOCIDatasource
        \<lparr>cloud = 0, trace = []\<rparr>) =
   Some (Inr [''T'' @ tenancy_suffix \<mapsto> ''t'', ''/a'' \<mapsto> ''c2''])"
proof -
  from getCompartments_served [OF served_onePage twins_recorded, of smallOrder "''r''" NewOCIDatasource "[]"]
  obtain o2 where "\<exists>w2.
        getCompartments (sdkIdentity ''T'' (onePage twins)) smallOrder ''r'' ''t'' NewOCIDatasource
          \<lparr>cloud = 0, trace = []\<rparr> =
        map_option (\<lambda>full. (Inr (invert full (invertOrder smallOrder)), o2, w2))
          (resolve_loop [''t'' \<mapsto> ''T'', ''c1'' \<mapsto> ''a'', ''c2'' \<mapsto> ''a'']
             [''t'' \<mapsto> [], ''c1'' \<mapsto> ''t'', ''c2'' \<mapsto> ''t''] ''t'' (resolveOrder smallOrder) 0
             [''t'' \<mapsto> go_lookup [''t'' \<mapsto> ''T'', ''c1'' \<mapsto> ''a'', ''c2'' \<mapsto> ''a''] ''t'' @ tenancy_suffix])" ..
  then obtain w2 where
    g: "getCompartments (sdkIdentity ''T'' (onePage twins)) smallOrder ''r'' ''t'' NewOCIDatasource
          \<lparr>cloud = 0, trace = []\<rparr> =
        map_option (\<lambda>full. (Inr (invert full (invertOrder smallOrder)), o2, w2))
          (resolve_loop [''t'' \<mapsto> ''T'', ''c1'' \<mapsto> ''a'', ''c2'' \<mapsto> ''a'']
             [''t'' \<mapsto> [], ''c1'' \<mapsto> ''t'', ''c2'' \<mapsto> ''t''] ''t'' (resolveOrder smallOrder) 0
             [''t'' \<mapsto> go_lookup [''t'' \<mapsto> ''T'', ''c1'' \<mapsto> ''a'', ''c2'' \<mapsto> ''a''] ''t'' @ tenancy_suffix])" ..
  show ?thesis
    by (simp only: g twins_loop option.map fst_conv twins_invert)
qed

lemma twins_tree: "finiteTree [''t'' \<mapsto> [], ''c1'' \<mapsto> ''t'', ''c2'' \<mapsto> ''t''] ''t''"
proof -
  let ?parents = "[''t'' \<mapsto> [], ''c1'' \<mapsto> ''t'', ''c2'' \<mapsto> ''t'']"
  have r: "reachesRoot ?parents ''t'' ''t''" by (rule reachesRoot.root)
  have "?parents ''c1'' = Some ''t''" by simp
  from reachesRoot.child [OF this r] have c1: "reachesRoot ?parents ''t'' ''c1''" .
  have "?parents ''c2'' = Some ''t''" by simp
  from reachesRoot.child [OF this r] have c2: "reachesRoot ?parents ''t'' ''c2''" .
  from r c1 c2 show ?thesis by (auto simp: finiteTree_def)
qed

text \<open>What \<^verbatim>\<open>getCompartments\<close> returns for the listing \<open>smallTree\<close>: the first pass
  resolves \<open>c1\<close>, the second \<open>c2\<close>.\<close>

lemma smallTree_pass0:
  "resolve_pass smallNames smallParents ''t'' [''c2'', ''c1'', ''t'']
     [''t'' \<mapsto> go_lookup smallNames ''t'' @ tenancy_suffix] =
   [''t'' \<mapsto> ''T'' @ tenancy_suffix, ''c1'' \<mapsto> ''/a'']"
  by (simp add: resolve_pass_def range_map_def resolve_entry_def go_lookup_def smallNames_def
      smallParents_def)

lemma smallTree_pass1:
  "resolve_pass smallNames smallParents ''t'' [''c2'', ''c1'', ''t'']
     [''t'' \<mapsto> ''T'' @ tenancy_suffix, ''c1'' \<mapsto> ''/a''] =
   [''t'' \<mapsto> ''T'' @ tenancy_suffix, ''c1'' \<mapsto> ''/a'', ''c2'' \<mapsto> ''/a/b'']"
  by (simp add: resolve_pass_def range_map_def resolve_entry_def go_lookup_def smallNames_def
      smallParents_def)

lemma smallTree_cards:
  "card (dom [''t'' \<mapsto> go_lookup smallNames ''t'' @ tenancy_suffix]) < card (dom smallNames)"
  "card (dom [''t'' \<mapsto> ''T'' @ tenancy_suffix, ''c1'' \<mapsto> ''/a'']) < card (dom smallNames)"
  "\<not> card (dom [''t'' \<mapsto> ''T'' @ tenancy_suffix, ''c1'' \<mapsto> ''/a'', ''c2'' \<mapsto> ''/a/b'']) <
     card (dom smallNames)"
  by (simp_all add: smallNames_def)

lemma smallTree_loop:
  "resolve_loop smallNames smallParents ''t'' (resolveOrder smallOrder) 0
     [''t'' \<mapsto> go_lookup smallNames ''t'' @ tenancy_suffix] =
   Some [''t'' \<mapsto> ''T'' @ tenancy_suffix, ''c1'' \<mapsto> ''/a'', ''c2'' \<mapsto> ''/a/b'']"
  apply (subst resolve_loop.simps)
  apply (simp only: smallTree_cards(1) if_True smallOrder_resolve smallTree_pass0)
  apply (subst resolve_loop.simps)
  apply (simp only: smallTree_cards(2) if_True smallOrder_resolve smallTree_pass1)
  apply (subst resolve_loop.simps)
  apply (simp only: smallTree_cards(3) if_False)
  done

lemma smallTree_invert:
  "invert [''t'' \<mapsto> ''T'' @ tenancy_suffix, ''c1'' \<mapsto> ''/a'', ''c2'' \<mapsto> ''/a/b'']
     (invertOrder smallOrder) =
   [''T'' @ tenancy_suffix \<mapsto> ''t'', ''/a'' \<mapsto> ''c1'', ''/a/b'' \<mapsto> ''c2'']"
  by (simp add: invert_def range_map_def smallOrder_def tenancy_suffix_def)

lemma smallTree_result:
  "map_option fst
     (getCompartments (sdkIdentity ''T'' (onePage smallTree)) smallOrder ''r'' ''t'' NewOCIDatasource
        \<lparr>cloud = 0, trace = []\<rparr>) =
   Some (Inr [''T'' @ tenancy_suffix \<mapsto> ''t'', ''/a'' \<mapsto> ''c1'', ''/a/b'' \<mapsto> ''c2''])"
proof -
  have rec: "recordActive (listed (onePage smallTree) 0) ([''t'' \<mapsto> ''T''], [''t'' \<mapsto> []]) =
             Inr (smallNames, smallParents)"
    by (simp add: listed_onePage smallTree_recorded)
  from getCompartments_served [OF served_onePage rec, of smallOrder "''r''" NewOCIDatasource "[]"]
  obtain o2 where "\<exists>w2.
        getCompartments (sdkIdentity ''T'' (onePage smallTree)) smallOrder ''r'' ''t'' NewOCIDatasource
          \<lparr>cloud = 0, trace = []\<rparr> =
        map_option (\<lambda>full. (Inr (invert full (invertOrder smallOrder)), o2, w2))
          (resolve_loop smallNames smallParents ''t'' (resolveOrder smallOrder) 0
             [''t'' \<mapsto> go_lookup smallNames ''t'' @ tenancy_suffix])" ..
  then obtain w2 where
    g: "getCompartments (sdkIdentity ''T'' (onePage smallTree)) smallOrder ''r'' ''t'' NewOCIDatasource
          \<lparr>cloud = 0, trace = []\<rparr> =
        map_option (\<lambda>full. (Inr (invert full (invertOrder smallOrder)), o2, w2))
          (resolve_loop smallNames smallParents ''t'' (resolveOrder smallOrder) 0
             [''t'' \<mapsto> go_lookup smallNames ''t'' @ tenancy_suffix])" ..
  show ?thesis
    by (simp only: g smallTree_loop option.map fst_conv smallTree_invert)
qed

text \<open>Claim C3 as stated fails on the listing \<open>smallTree\<close> (\<open>c2\<close> under \<open>c1\<close> under the
  tenancy \<open>t\<close>, which is a tree): the returned map has one entry for each of \<open>t\<close>, \<open>c1\<close>
  and \<open>c2\<close>, and the key of the tenancy is its name followed by
  \<^verbatim>\<open>(tenancy, shown as '/')\<close>, which does not begin with \<open>/\<close>. And on the listing
  \<open>twins\<close> (two active compartments named \<open>a\<close> right under the tenancy, also a tree) the
  returned map has the one key \<open>/a\<close> for both, so two entries for the three identifiers;
  \<open>c1\<close> has no entry.\<close>

theorem getCompartments_tree_counterexample:
  "recordActive smallTree ([''t'' \<mapsto> ''T''], [''t'' \<mapsto> []]) = Inr (smallNames, smallParents) \<and>
   finiteTree smallParents ''t'' \<and>
   map_option fst
     (getCompartments (sdkIdentity ''T'' (onePage smallTree)) smallOrder ''r'' ''t'' NewOCIDatasource
        \<lparr>cloud = 0, trace = []\<rparr>) =
   Some (Inr [''T'' @ tenancy_suffix \<mapsto> ''t'', ''/a'' \<mapsto> ''c1'', ''/a/b'' \<mapsto> ''c2'']) \<and>
   take 1 (''T'' @ tenancy_suffix) \<noteq> ''/'' \<and>
   finiteTree [''t'' \<mapsto> [], ''c1'' \<mapsto> ''t'', ''c2'' \<mapsto> ''t''] ''t'' \<and>
   activeIds twins = {''c1'', ''c2''} \<and>
   map_option fst
     (getCompartments (sdkIdentity ''T'' (onePage twins)) smallOrder ''r'' ''t'' NewOCIDatasource
        \<lparr>cloud = 0, trace = []\<rparr>) =
   Some (Inr [''T'' @ tenancy_suffix \<mapsto> ''t'', ''/a'' \<mapsto> ''c2'']) \<and>
   ''c1'' \<notin> ran [''T'' @ tenancy_suffix \<mapsto> ''t'', ''/a'' \<mapsto> ''c2'']"
proof -
  have a: "activeIds twins = {''c1'', ''c2''}"
    by (simp add: twins_def cmpt_def activeIds_Cons activeIds_Nil)
  have b: "''c1'' \<notin> ran [''T'' @ tenancy_suffix \<mapsto> ''t'', ''/a'' \<mapsto> ''c2'']"
    by (auto simp: ran_def tenancy_suffix_def split: if_splits)
  have c: "take 1 (''T'' @ tenancy_suffix) \<noteq> ''/''" by simp
  show ?thesis
    by (intro conjI smallTree_recorded smallTree_tree smallTree_result c twins_tree a twins_result b)
qed

subsection \<open>Lookup responders\<close>

lemma appendRows_Inr:
  "appendRows f items rows = Inr result \<Longrightarrow>
   result = rows @ map (\<lambda>item. [the (f item)]) items \<and> (\<forall>item\<in>set items. f item \<noteq> None)"
proof (induction items arbitrary: rows)
  case Nil
  then show ?case by simp
next
  case (Cons item items)
  from Cons.prems obtain v where v: "f item = Some v"
    and rest: "appendRows f items (rows @ [[v]]) = Inr result"
    by (auto split: option.splits)
  from Cons.IH [OF rest] v show ?case by simp
qed

text \<open>The table that the loop of \<^verbatim>\<open>resourcegroupsResponse\<close> leaves is the one of the
  last query: the placeholder row, then the groups listed for that query.\<close>

lemma resourcegroupsResponse_loop_rows:
  "resourcegroupsResponse_loop sdk queries rows o1 w = (Inr result, o2, w2) \<Longrightarrow> queries \<noteq> [] \<Longrightarrow>
   \<exists>o' w' items.
     searchHelper sdk (ts_Region (ModelJson (last queries))) (ts_Compartment (ModelJson (last queries)))
       (resourcegroupsResponse_reqDetails (ModelJson (last queries))) o' w' = (Inr items, o2, w2) \<and>
     result = [rows_placeholder] # map (\<lambda>item. [the (m_ResourceGroup item)]) items \<and>
     (\<forall>item\<in>set items. m_ResourceGroup item \<noteq> None)"
proof (induction queries arbitrary: rows o1 w)
  case Nil
  then show ?case by simp
next
  case (Cons q queries)
  from Cons.prems(1) obtain items o3 w3 rows3 where
    sh: "searchHelper sdk (ts_Region (ModelJson q)) (ts_Compartment (ModelJson q))
           (resourcegroupsResponse_reqDetails (ModelJson q)) o1 w = (Inr items, o3, w3)"
    and ar: "appendRows m_ResourceGroup items [[rows_placeholder]] = Inr rows3"
    and rest: "resourcegroupsResponse_loop sdk queries rows3 o3 w3 = (Inr result, o2, w2)"
    by (auto simp: Let_def split: prod.splits sum.splits)
  show ?case
  proof (cases "queries = []")
    case True
    with rest have "result = rows3" "o3 = o2" "w3 = w2" by simp_all
    with sh appendRows_Inr [OF ar] True show ?thesis by auto
  next
    case False
    from Cons.IH [OF rest False] False show ?thesis by simp
  qed
qed

lemma ListMetrics_sdkPages_one:
  "lm_OpcNextPage (pages 0) = None \<Longrightarrow>
   searchHelper (sdkPages pages) region compartment metricDetails o1 \<lparr>cloud = 0, trace = tr\<rparr> =
     (Inr (lm_Items (pages 0)), inRegion (sdkPages pages) region o1,
      \<lparr>cloud = 1, trace = tr @ [ListMetricsCall (metricsClient (inRegion (sdkPages pages) region o1))
                                 (pageRequest compartment metricDetails None)]\<rparr>)"
  unfolding searchHelper_def
  by (subst searchHelper_loop.simps)
     (simp add: sdkPages_def servePages_def Let_def inRegion_def pageRequest_def)

lemma appendRows_Some:
  "map f items = map Some vs \<Longrightarrow> appendRows f items rows = Inr (rows @ map (\<lambda>v. [v]) vs)"
proof (induction items arbitrary: rows vs)
  case Nil
  then show ?case by simp
next
  case (Cons item items)
  then obtain v vs2 where vs: "vs = v # vs2" and v: "f item = Some v"
    and rest: "map f items = map Some vs2"
    by (cases vs) auto
  from Cons.IH [OF rest, of "rows @ [[v]]"] v show ?case by (simp add: vs)
qed

text \<open>Claim C8. (1) For every request of type \<open>resourcegroups\<close> with one query, arriving
  when the clients are there: if the metrics listing of the query returns items whose
  resource groups are \<open>groups\<close> (any number of them, zero included), \<^verbatim>\<open>Query\<close> answers
  with one table whose rows are \<open>"NoResourceGroup"\<close> first and then one row for each group,
  in the order of the listing. (2) Whatever the request of type \<open>resourcegroups\<close> (one
  query or several, clients there or not), a response that \<^verbatim>\<open>Query\<close> returns for
  it is one table whose first row is \<open>"NoResourceGroup"\<close>, followed by the groups that the
  listing returned for the last query of the request.\<close>

theorem resourcegroups_first_row:
  "(config o1 = Some c \<and> ts_QueryType (ModelJson q) = ''resourcegroups'' \<and>
    searchHelper sdk (ts_Region (ModelJson q)) (ts_Compartment (ModelJson q))
      (resourcegroupsResponse_reqDetails (ModelJson q)) o1 w = (Inr items, o2, w2) \<and>
    map m_ResourceGroup items = map Some groups \<longrightarrow>
    Query sdk ro now \<lparr>Queries = [q], FromEpochMs = from, ToEpochMs = to\<rparr> o1 w =
      Some (Inr (Some \<lparr>Results = [\<lparr>qr_RefId = ''resourcegroups'', Error = [], Series = [],
                                   Tables = [\<lparr>Columns = [''text''],
                                             Rows = [''NoResourceGroup''] # map (\<lambda>g. [g]) groups\<rparr>]\<rparr>]\<rparr>),
            o2, w2)) \<and>
   (Query sdk ro now tsdbReq o1 w = Some (Inr r, o2, w2) \<and> Queries tsdbReq = q # queries \<and>
    ts_QueryType (ModelJson q) = ''resourcegroups'' \<longrightarrow>
    (\<exists>groups.
       r = Some \<lparr>Results = [\<lparr>qr_RefId = ''resourcegroups'', Error = [], Series = [],
                             Tables = [\<lparr>Columns = [''text''],
                                       Rows = [''NoResourceGroup''] # map (\<lambda>g. [g]) groups\<rparr>]\<rparr>]\<rparr> \<and>
       (\<exists>o' w' items.
          searchHelper sdk (ts_Region (ModelJson (last (Queries tsdbReq))))
            (ts_Compartment (ModelJson (last (Queries tsdbReq))))
            (resourcegroupsResponse_reqDetails (ModelJson (last (Queries tsdbReq)))) o' w' =
            (Inr items, o2, w2) \<and>
          map m_ResourceGroup items = map Some groups)))"
proof (intro conjI impI)
  assume h: "config o1 = Some c \<and> ts_QueryType (ModelJson q) = ''resourcegroups'' \<and>
    searchHelper sdk (ts_Region (ModelJson q)) (ts_Compartment (ModelJson q))
      (resourcegroupsResponse_reqDetails (ModelJson q)) o1 w = (Inr items, o2, w2) \<and>
    map m_ResourceGroup items = map Some groups"
  then have rows: "appendRows m_ResourceGroup items [[rows_placeholder]] =
                   Inr ([[rows_placeholder]] @ map (\<lambda>g. [g]) groups)"
    by (intro appendRows_Some) simp
  from h have boot: "Query_bootstrap sdk (ts_Environment (ModelJson q)) o1 w = (None, o1, w)"
    by (simp add: Query_bootstrap_def)
  from h rows have "resourcegroupsResponse sdk \<lparr>Queries = [q], FromEpochMs = from, ToEpochMs = to\<rparr> o1 w =
      (Inr \<lparr>Results = [\<lparr>qr_RefId = ''resourcegroups'', Error = [], Series = [],
                          Tables = [\<lparr>Columns = [''text''],
                                    Rows = [''NoResourceGroup''] # map (\<lambda>g. [g]) groups\<rparr>]\<rparr>]\<rparr>,
       o2, w2)"
    by (simp add: resourcegroupsResponse_def lookupResponse_def Let_def rows_placeholder_def)
  with h boot show "Query sdk ro now \<lparr>Queries = [q], FromEpochMs = from, ToEpochMs = to\<rparr> o1 w =
      Some (Inr (Some \<lparr>Results = [\<lparr>qr_RefId = ''resourcegroups'', Error = [], Series = [],
                                   Tables = [\<lparr>Columns = [''text''],
                                             Rows = [''NoResourceGroup''] # map (\<lambda>g. [g]) groups\<rparr>]\<rparr>]\<rparr>),
            o2, w2)"
    by (simp add: Query_def Let_def returned_def)
next
  assume a: "Query sdk ro now tsdbReq o1 w = Some (Inr r, o2, w2) \<and> Queries tsdbReq = q # queries \<and>
    ts_QueryType (ModelJson q) = ''resourcegroups''"
  then obtain o3 w3 where
    "Some (returned (resourcegroupsResponse sdk tsdbReq o3 w3)) = Some (Inr r, o2, w2)"
    by (auto simp: Query_def Let_def split: prod.splits option.splits)
  then obtain resp where r: "r = Some resp"
    and rg: "resourcegroupsResponse sdk tsdbReq o3 w3 = (Inr resp, o2, w2)"
    by (cases "resourcegroupsResponse sdk tsdbReq o3 w3")
       (auto simp: returned_def map_sum_def split: sum.splits)
  from rg obtain rows where
    loop: "resourcegroupsResponse_loop sdk (Queries tsdbReq) [] o3 w3 = (Inr rows, o2, w2)"
    and resp: "resp = lookupResponse ''resourcegroups'' [''text''] rows"
    by (auto simp: resourcegroupsResponse_def split: prod.splits sum.splits)
  from a have ne: "Queries tsdbReq \<noteq> []" by simp
  from resourcegroupsResponse_loop_rows [OF loop ne] obtain o' w' items where
    sh: "searchHelper sdk (ts_Region (ModelJson (last (Queries tsdbReq))))
           (ts_Compartment (ModelJson (last (Queries tsdbReq))))
           (resourcegroupsResponse_reqDetails (ModelJson (last (Queries tsdbReq)))) o' w' =
           (Inr items, o2, w2)"
    and rows: "rows = [rows_placeholder] # map (\<lambda>item. [the (m_ResourceGroup item)]) items"
    and all: "\<forall>item\<in>set items. m_ResourceGroup item \<noteq> None"
    by blast
  have "map m_ResourceGroup items = map Some (map (\<lambda>item. the (m_ResourceGroup item)) items)"
    using all by (induction items) auto
  moreover have "rows = [''NoResourceGroup''] # map (\<lambda>g. [g]) (map (\<lambda>item. the (m_ResourceGroup item)) items)"
    using rows by (simp add: rows_placeholder_def comp_def)
  ultimately show "\<exists>groups.
       r = Some \<lparr>Results = [\<lparr>qr_RefId = ''resourcegroups'', Error = [], Series = [],
                             Tables = [\<lparr>Columns = [''text''],
                                       Rows = [''NoResourceGroup''] # map (\<lambda>g. [g]) groups\<rparr>]\<rparr>]\<rparr> \<and>
       (\<exists>o' w' items.
          searchHelper sdk (ts_Region (ModelJson (last (Queries tsdbReq))))
            (ts_Compartment (ModelJson (last (Queries tsdbReq))))
            (resourcegroupsResponse_reqDetails (ModelJson (last (Queries tsdbReq)))) o' w' =
            (Inr items, o2, w2) \<and>
          map m_ResourceGroup items = map Some groups)"
    using r resp sh unfolding lookupResponse_def by blast
qed

text \<open>The theorem at a listing of the two groups \<open>g1\<close> and \<open>g2\<close>, and at a listing of no
  group at all: the table is the placeholder row and the two groups, and the placeholder
  row alone.\<close>

theorem resourcegroups_first_row_witness:
  "config cachedDatasource = Some DefaultConfig \<and>
   ts_QueryType (ModelJson groupsQuery) = ''resourcegroups'' \<and>
   map m_ResourceGroup (lm_Items (groupsPage [''g1'', ''g2''] 0)) = map Some [''g1'', ''g2''] \<and>
   map_option fst
     (Query (sdkPages (groupsPage [''g1'', ''g2''])) smallOrder 0
        \<lparr>Queries = [groupsQuery], FromEpochMs = 0, ToEpochMs = 1\<rparr>
        cachedDatasource \<lparr>cloud = 0, trace = []\<rparr>) =
     Some (Inr (Some \<lparr>Results = [\<lparr>qr_RefId = ''resourcegroups'', Error = [], Series = [],
                                  Tables = [\<lparr>Columns = [''text''],
                                            Rows = [[''NoResourceGroup''], [''g1''], [''g2'']]\<rparr>]\<rparr>]\<rparr>)) \<and>
   map_option fst
     (Query (sdkPages (groupsPage [])) smallOrder 0
        \<lparr>Queries = [groupsQuery], FromEpochMs = 0, ToEpochMs = 1\<rparr>
        cachedDatasource \<lparr>cloud = 0, trace = []\<rparr>) =
     Some (Inr (Some \<lparr>Results = [\<lparr>qr_RefId = ''resourcegroups'', Error = [], Series = [],
                                  Tables = [\<lparr>Columns = [''text''],
                                            Rows = [[''NoResourceGroup'']]\<rparr>]\<rparr>]\<rparr>))"
proof -
  let ?ts = "ModelJson groupsQuery"
  have c: "config cachedDatasource = Some DefaultConfig"
    by (simp add: cachedDatasource_def NewOCIDatasource_def)
  have t: "ts_QueryType ?ts = ''resourcegroups''"
    by (simp add: groupsQuery_def grafanaRequest_def)
  have p: "lm_OpcNextPage (groupsPage gs 0) = None" for gs
    by (simp add: groupsPage_def metricPage_def)
  have g: "map m_ResourceGroup (lm_Items (groupsPage gs 0)) = map Some gs" for gs
    by (simp add: groupsPage_def metricPage_def grouped_def comp_def)
  have sh: "searchHelper (sdkPages (groupsPage gs)) (ts_Region ?ts) (ts_Compartment ?ts)
              (resourcegroupsResponse_reqDetails ?ts) cachedDatasource \<lparr>cloud = 0, trace = []\<rparr> =
            (Inr (lm_Items (groupsPage gs 0)),
             inRegion (sdkPages (groupsPage gs)) (ts_Region ?ts) cachedDatasource,
             \<lparr>cloud = 1,
              trace = [] @ [ListMetricsCall
                             (metricsClient (inRegion (sdkPages (groupsPage gs)) (ts_Region ?ts)
                                               cachedDatasource))
                             (pageRequest (ts_Compartment ?ts) (resourcegroupsResponse_reqDetails ?ts)
                                None)]\<rparr>)" for gs
    using p by (rule ListMetrics_sdkPages_one)
  have run: "map_option fst
     (Query (sdkPages (groupsPage gs)) smallOrder 0
        \<lparr>Queries = [groupsQuery], FromEpochMs = 0, ToEpochMs = 1\<rparr>
        cachedDatasource \<lparr>cloud = 0, trace = []\<rparr>) =
     Some (Inr (Some \<lparr>Results = [\<lparr>qr_RefId = ''resourcegroups'', Error = [], Series = [],
                                  Tables = [\<lparr>Columns = [''text''],
                                            Rows = [''NoResourceGroup''] # map (\<lambda>g. [g]) gs\<rparr>]\<rparr>]\<rparr>))"
    for gs
  proof -
    from resourcegroups_first_row [of cachedDatasource DefaultConfig groupsQuery
        "sdkPages (groupsPage gs)" "\<lparr>cloud = 0, trace = []\<rparr>" "lm_Items (groupsPage gs 0)"
        _ _ gs smallOrder 0 0 1] c t sh [of gs] g [of gs]
    show ?thesis by simp
  qed
  from c t g [of "[''g1'', ''g2'']"] run [of "[''g1'', ''g2'']"] run [of "[]"]
  show ?thesis by simp
qed

subsection \<open>Unknown environment; the search responder\<close>

lemma searchRows_ABA:
  "map m_Name items = [Some ''A'', Some ''B'', Some ''A''] \<Longrightarrow>
   searchRows items [] Map.empty = Inr [[''A''], [''B'']]"
  by (cases items rule: list.exhaust; simp) (auto simp: Cons_eq_map_conv)

text \<open>Claim C9. (1) For every request whose first query names an environment other than
  \<open>"local"\<close> and \<open>"OCI Instance"\<close>, arriving while no configuration is cached,
  \<^verbatim>\<open>Query\<close> returns the configuration error; the datasource (its two clients and its
  configuration) and the world are left as they were, so no client was constructed and
  no handler made a call. (2) When the metrics listing of a search query returns items
  named \<open>A, B, A\<close>, \<^verbatim>\<open>searchResponse\<close> answers with exactly the rows \<open>A, B\<close>, in that
  order.\<close>

theorem unknown_environment_and_search:
  "(Queries tsdbReq = q # queries \<and> ts_Environment (ModelJson q) \<noteq> ''local'' \<and>
    ts_Environment (ModelJson q) \<noteq> ''OCI Instance'' \<and> config o1 = None \<longrightarrow>
    Query sdk ro now tsdbReq o1 w =
      Some (Inl (Wrap (New ''unknown environment type'') ''broken environment''), o1, w)) \<and>
   (searchHelper sdk (ts_Region ts) (ts_Compartment ts) (searchResponse_reqDetails ts) o1 w =
      (Inr items, o2, w2) \<and>
    map m_Name items = [Some ''A'', Some ''B'', Some ''A''] \<longrightarrow>
    searchResponse sdk \<lparr>Queries = [\<lparr>RefId = refId, ModelJson = ts\<rparr>],
                         FromEpochMs = from, ToEpochMs = to\<rparr> o1 w =
      (Inr \<lparr>Results = [\<lparr>qr_RefId = ''search'', Error = [], Series = [],
                          Tables = [\<lparr>Columns = [''text''], Rows = [[''A''], [''B'']]\<rparr>]\<rparr>]\<rparr>,
       o2, w2))"
proof (intro conjI impI)
  assume "Queries tsdbReq = q # queries \<and> ts_Environment (ModelJson q) \<noteq> ''local'' \<and>
    ts_Environment (ModelJson q) \<noteq> ''OCI Instance'' \<and> config o1 = None"
  then show "Query sdk ro now tsdbReq o1 w =
      Some (Inl (Wrap (New ''unknown environment type'') ''broken environment''), o1, w)"
    by (simp add: Query_def Query_bootstrap_def getConfigProvider_def Let_def)
next
  assume h: "searchHelper sdk (ts_Region ts) (ts_Compartment ts) (searchResponse_reqDetails ts) o1 w =
      (Inr items, o2, w2) \<and>
    map m_Name items = [Some ''A'', Some ''B'', Some ''A'']"
  then have "searchRows items [] Map.empty = Inr [[''A''], [''B'']]"
    by (intro searchRows_ABA) simp
  with h show "searchResponse sdk \<lparr>Queries = [\<lparr>RefId = refId, ModelJson = ts\<rparr>],
                         FromEpochMs = from, ToEpochMs = to\<rparr> o1 w =
      (Inr \<lparr>Results = [\<lparr>qr_RefId = ''search'', Error = [], Series = [],
                          Tables = [\<lparr>Columns = [''text''], Rows = [[''A''], [''B'']]\<rparr>]\<rparr>]\<rparr>,
       o2, w2)"
    by (simp add: searchResponse_def lookupResponse_def Let_def)
qed

text \<open>The theorem at a request for the environment \<open>"azure"\<close> on a fresh datasource, and
  at a listing of one page with the items \<open>A, B, A\<close>.\<close>

theorem unknown_environment_and_search_witness:
  "Query (sdkPages pageABA) \<lparr>resolveOrder = (\<lambda>n. []), invertOrder = [], rowsOrder = []\<rparr> 0
     (batch [\<lparr>RefId = ''A'', ModelJson = grafanaRequest ''search'' ''azure'' [] []\<rparr>])
     NewOCIDatasource \<lparr>cloud = 0, trace = []\<rparr> =
     Some (Inl (Wrap (New ''unknown environment type'') ''broken environment''),
           NewOCIDatasource, \<lparr>cloud = 0, trace = []\<rparr>) \<and>
   map m_Name (lm_Items (pageABA 0)) = [Some ''A'', Some ''B'', Some ''A''] \<and>
   fst (searchResponse (sdkPages pageABA)
          \<lparr>Queries = [\<lparr>RefId = ''A'', ModelJson = grafanaRequest ''search'' ''local'' [] []\<rparr>],
           FromEpochMs = 0, ToEpochMs = 1\<rparr> NewOCIDatasource \<lparr>cloud = 0, trace = []\<rparr>) =
     Inr \<lparr>Results = [\<lparr>qr_RefId = ''search'', Error = [], Series = [],
                       Tables = [\<lparr>Columns = [''text''], Rows = [[''A''], [''B'']]\<rparr>]\<rparr>]\<rparr>"
proof -
  let ?ts = "grafanaRequest ''search'' ''local'' [] []"
  let ?bad = "\<lparr>RefId = ''A'', ModelJson = grafanaRequest ''search'' ''azure'' [] []\<rparr>"
  have a: "Queries (batch [?bad]) = ?bad # [] \<and> ts_Environment (ModelJson ?bad) \<noteq> ''local'' \<and>
           ts_Environment (ModelJson ?bad) \<noteq> ''OCI Instance'' \<and> config NewOCIDatasource = None"
    by (simp add: batch_def grafanaRequest_def NewOCIDatasource_def)
  have p: "lm_OpcNextPage (pageABA 0) = None" by (simp add: pageABA_def metricPage_def)
  have n: "map m_Name (lm_Items (pageABA 0)) = [Some ''A'', Some ''B'', Some ''A'']"
    by (simp add: pageABA_def metricPage_def named_def)
  have sh: "searchHelper (sdkPages pageABA) (ts_Region ?ts) (ts_Compartment ?ts)
              (searchResponse_reqDetails ?ts) NewOCIDatasource \<lparr>cloud = 0, trace = []\<rparr> =
            (Inr (lm_Items (pageABA 0)),
             inRegion (sdkPages pageABA) (ts_Region ?ts) NewOCIDatasource,
             \<lparr>cloud = 1,
              trace = [] @ [ListMetricsCall
                             (metricsClient (inRegion (sdkPages pageABA) (ts_Region ?ts) NewOCIDatasource))
                             (pageRequest (ts_Compartment ?ts) (searchResponse_reqDetails ?ts) None)]\<rparr>)"
    using p by (rule ListMetrics_sdkPages_one)
  from unknown_environment_and_search [of "batch [?bad]" ?bad "[]" NewOCIDatasource
      "sdkPages pageABA" _ _ "\<lparr>cloud = 0, trace = []\<rparr>"] a
  have 1: "Query (sdkPages pageABA) ro now (batch [?bad]) NewOCIDatasource \<lparr>cloud = 0, trace = []\<rparr> =
     Some (Inl (Wrap (New ''unknown environment type'') ''broken environment''),
           NewOCIDatasource, \<lparr>cloud = 0, trace = []\<rparr>)" for ro now
    by blast
  from unknown_environment_and_search [of _ _ _ NewOCIDatasource "sdkPages pageABA" _ _
      "\<lparr>cloud = 0, trace = []\<rparr>" ?ts "lm_Items (pageABA 0)" _ _ "''A''" 0 1] sh n
  have 2: "fst (searchResponse (sdkPages pageABA)
          \<lparr>Queries = [\<lparr>RefId = ''A'', ModelJson = ?ts\<rparr>],
           FromEpochMs = 0, ToEpochMs = 1\<rparr> NewOCIDatasource \<lparr>cloud = 0, trace = []\<rparr>) =
     Inr \<lparr>Results = [\<lparr>qr_RefId = ''search'', Error = [], Series = [],
                       Tables = [\<lparr>Columns = [''text''], Rows = [[''A''], [''B'']]\<rparr>]\<rparr>]\<rparr>"
    by simp
  from 1 n 2 show ?thesis by blast
qed

subsection \<open>The resource-group sentinel\<close>

text \<open>Every call of \<^verbatim>\<open>searchHelper\<close> is a \<^verbatim>\<open>ListMetrics\<close> call that carries the
  details it was given, and there is at least one.\<close>

lemma searchHelper_loop_calls:
  "\<exists>client others.
     trace (snd (snd (searchHelper_loop sdk region compartment metricDetails items page
                        pageNumber o1 w))) =
       trace w @ ListMetricsCall client \<lparr>lm_CompartmentId = Some compartment,
                                        lm_ListMetricsDetails = metricDetails,
                                        lm_Page = page\<rparr> # others \<and>
     (\<forall>ev\<in>set others. \<exists>client req. ev = ListMetricsCall client req \<and>
                        lm_ListMetricsDetails req = metricDetails \<and> lm_Page req \<noteq> None)"
proof (induction sdk region compartment metricDetails items page pageNumber o1 w
       rule: searchHelper_loop.induct)
  case (1 sdk region compartment metricDetails items page pageNumber o1 w)
  let ?o2 = "o1\<lparr>metricsClient := (metricsClient o1)\<lparr>mc_region := StringToRegion sdk region\<rparr>\<rparr>"
  let ?mc = "metricsClient ?o2"
  let ?req = "\<lparr>lm_CompartmentId = Some compartment, lm_ListMetricsDetails = metricDetails,
               lm_Page = page\<rparr>"
  let ?r = "ListMetrics sdk ?mc ?req (cloud w)"
  let ?ev = "ListMetricsCall ?mc ?req"
  let ?w2 = "\<lparr>cloud = snd ?r, trace = trace w @ [?ev]\<rparr>"
  let ?stop = "lm_OpcNextPage (fst (fst ?r)) = None \<or> pageNumber \<ge> MAX_PAGES_TO_FETCH"
  let ?next = "searchHelper_loop sdk region compartment metricDetails
                 (items @ lm_Items (fst (fst ?r))) (lm_OpcNextPage (fst (fst ?r)))
                 (pageNumber + 1) ?o2 ?w2"
  have unf: "searchHelper_loop sdk region compartment metricDetails items page pageNumber o1 w =
        (case snd (fst ?r) of
           Some e \<Rightarrow> (Inl (Wrap e ''list metrircs failed''), ?o2, ?w2)
         | None \<Rightarrow> if ?stop then (Inr (items @ lm_Items (fst (fst ?r))), ?o2, ?w2) else ?next)"
    by (subst searchHelper_loop.simps) (simp only: Let_def)
  have ih: "snd (fst ?r) = None \<Longrightarrow> \<not> ?stop \<Longrightarrow>
            \<exists>client others.
              trace (snd (snd ?next)) =
                trace ?w2 @ ListMetricsCall client
                              \<lparr>lm_CompartmentId = Some compartment,
                               lm_ListMetricsDetails = metricDetails,
                               lm_Page = lm_OpcNextPage (fst (fst ?r))\<rparr> # others \<and>
              (\<forall>ev\<in>set others. \<exists>client req. ev = ListMetricsCall client req \<and>
                        lm_ListMetricsDetails req = metricDetails \<and> lm_Page req \<noteq> None)"
    by (rule "1.IH" [OF refl refl refl refl])
  show ?case
  proof (cases "snd (fst ?r) = None \<and> \<not> ?stop")
    case True
    then have a: "snd (fst ?r) = None" and b: "\<not> ?stop" by blast+
    from b have cur: "lm_OpcNextPage (fst (fst ?r)) \<noteq> None" by simp
    from ih [OF a b] obtain client others where
      evs: "trace (snd (snd ?next)) =
              trace ?w2 @ ListMetricsCall client
                            \<lparr>lm_CompartmentId = Some compartment,
                             lm_ListMetricsDetails = metricDetails,
                             lm_Page = lm_OpcNextPage (fst (fst ?r))\<rparr> # others"
      and all: "\<forall>ev\<in>set others. \<exists>client req. ev = ListMetricsCall client req \<and>
                        lm_ListMetricsDetails req = metricDetails \<and> lm_Page req \<noteq> None"
      by blast
    have "searchHelper_loop sdk region compartment metricDetails items page pageNumber o1 w = ?next"
      by (simp only: unf a b option.case if_False)
    with evs all cur show ?thesis
      by (intro exI [of _ ?mc]
                exI [of _ "ListMetricsCall client
                             \<lparr>lm_CompartmentId = Some compartment,
                              lm_ListMetricsDetails = metricDetails,
                              lm_Page = lm_OpcNextPage (fst (fst ?r))\<rparr> # others"]) simp
  next
    case False
    then have "trace (snd (snd (searchHelper_loop sdk region compartment metricDetails items page
                                  pageNumber o1 w))) = trace w @ [?ev]"
      unfolding unf by (cases "snd (fst ?r)") auto
    then show ?thesis
      by (intro exI [of _ ?mc] exI [of _ "[]"]) simp
  qed
qed

lemma searchHelper_calls:
  assumes "searchHelper sdk region compartment metricDetails o1 w = (r, o2, w2)"
  shows "\<exists>first others. trace w2 = trace w @ first # others \<and>
           opensQuery first \<and> list_all (\<lambda>ev. \<not> opensQuery ev) others \<and>
           list_all (\<lambda>ev. isMetricsCall ev \<and>
                       resourceGroupFilter ev = lmd_ResourceGroup metricDetails) (first # others)"
proof -
  from searchHelper_loop_calls [of sdk region compartment metricDetails "[]" None 0 o1 w] assms
  obtain client others where
    t: "trace w2 = trace w @ ListMetricsCall client
                               \<lparr>lm_CompartmentId = Some compartment,
                                lm_ListMetricsDetails = metricDetails, lm_Page = None\<rparr> # others"
    and all: "\<forall>ev\<in>set others. \<exists>client req. ev = ListMetricsCall client req \<and>
                        lm_ListMetricsDetails req = metricDetails \<and> lm_Page req \<noteq> None"
    by (auto simp: searchHelper_def)
  from all have "list_all (\<lambda>ev. \<not> opensQuery ev) others"
    and "list_all (\<lambda>ev. isMetricsCall ev \<and>
                    resourceGroupFilter ev = lmd_ResourceGroup metricDetails) others"
    by (auto simp: list_all_iff opensQuery_def isMetricsCall_def resourceGroupFilter_def)
  with t show ?thesis
    by (intro exI [of _ "ListMetricsCall client
                           \<lparr>lm_CompartmentId = Some compartment,
                            lm_ListMetricsDetails = metricDetails, lm_Page = None\<rparr>"]
              exI [of _ others])
       (simp add: opensQuery_def isMetricsCall_def resourceGroupFilter_def)
qed

lemma reqDetails_filter:
  "lmd_ResourceGroup (dimensionResponse_reqDetails ts) = requestedFilter ts"
  "lmd_ResourceGroup (searchResponse_reqDetails ts) = requestedFilter ts"
  "smd_ResourceGroup (queryResponse_req tsdbReq ts) = requestedFilter ts"
  by (simp_all add: dimensionResponse_reqDetails_def searchResponse_reqDetails_def
      queryResponse_req_def requestedFilter_def)

lemma answersBatch_Nil: "answersBatch [] failed []"
  by (simp add: answersBatch_def)

lemma answersBatch_stop:
  assumes "opensQuery first" and "list_all (\<lambda>ev. \<not> opensQuery ev) others"
    and "list_all (\<lambda>ev. isMetricsCall ev \<and> resourceGroupFilter ev = requestedFilter (ModelJson q))
           (first # others)"
  shows "answersBatch (q # queries) True [first # others]"
  using assms by (simp add: answersBatch_def)

lemma answersBatch_Cons:
  assumes "opensQuery first" and "list_all (\<lambda>ev. \<not> opensQuery ev) others"
    and "list_all (\<lambda>ev. isMetricsCall ev \<and> resourceGroupFilter ev = requestedFilter (ModelJson q))
           (first # others)"
    and "answersBatch queries failed blocks"
  shows "answersBatch (q # queries) failed ((first # others) # blocks)"
  using assms by (auto simp: answersBatch_def)

lemma dimensionResponse_loop_sent:
  "\<exists>blocks. trace (snd (snd (dimensionResponse_loop sdk queries rows o1 w))) =
              trace w @ concat blocks \<and>
            answersBatch queries (isl (fst (dimensionResponse_loop sdk queries rows o1 w))) blocks"
proof (induction queries arbitrary: rows o1 w)
  case Nil
  show ?case by (intro exI [of _ "[]"]) (simp add: answersBatch_Nil)
next
  case (Cons q queries)
  let ?ts = "ModelJson q"
  obtain r o2 w2 where sh: "searchHelper sdk (ts_Region ?ts) (ts_Compartment ?ts)
      (dimensionResponse_reqDetails ?ts) o1 w = (r, o2, w2)"
    by (metis prod_cases3)
  from searchHelper_calls [OF sh] obtain first others where
    t1: "trace w2 = trace w @ first # others" and f: "opensQuery first"
    and m: "list_all (\<lambda>ev. \<not> opensQuery ev) others"
    and all: "list_all (\<lambda>ev. isMetricsCall ev \<and> resourceGroupFilter ev = requestedFilter ?ts)
                (first # others)"
    by (auto simp: reqDetails_filter)
  show ?case
  proof (cases r)
    case (Inl e)
    with sh t1 answersBatch_stop [OF f m all] show ?thesis
      by (intro exI [of _ "[first # others]"]) (simp add: Let_def)
  next
    case (Inr items)
    from Cons.IH [of "dimensionRows items" o2 w2] obtain blocks where
      t2: "trace (snd (snd (dimensionResponse_loop sdk queries (dimensionRows items) o2 w2))) =
             trace w2 @ concat blocks"
      and s2: "answersBatch queries
                 (isl (fst (dimensionResponse_loop sdk queries (dimensionRows items) o2 w2))) blocks"
      by blast
    with Inr sh t1 answersBatch_Cons [OF f m all s2] show ?thesis
      by (intro exI [of _ "(first # others) # blocks"]) (simp add: Let_def)
  qed
qed

lemma searchResponse_loop_sent:
  "\<exists>blocks. trace (snd (snd (searchResponse_loop sdk queries rows o1 w))) =
              trace w @ concat blocks \<and>
            answersBatch queries (isl (fst (searchResponse_loop sdk queries rows o1 w))) blocks"
proof (induction queries arbitrary: rows o1 w)
  case Nil
  show ?case by (intro exI [of _ "[]"]) (simp add: answersBatch_Nil)
next
  case (Cons q queries)
  let ?ts = "ModelJson q"
  obtain r o2 w2 where sh: "searchHelper sdk (ts_Region ?ts) (ts_Compartment ?ts)
      (searchResponse_reqDetails ?ts) o1 w = (r, o2, w2)"
    by (metis prod_cases3)
  from searchHelper_calls [OF sh] obtain first others where
    t1: "trace w2 = trace w @ first # others" and f: "opensQuery first"
    and m: "list_all (\<lambda>ev. \<not> opensQuery ev) others"
    and all: "list_all (\<lambda>ev. isMetricsCall ev \<and> resourceGroupFilter ev = requestedFilter ?ts)
                (first # others)"
    by (auto simp: reqDetails_filter)
  show ?case
  proof (cases r)
    case (Inl e)
    with sh t1 answersBatch_stop [OF f m all] show ?thesis
      by (intro exI [of _ "[first # others]"]) (simp add: Let_def)
  next
    case (Inr items)
    show ?thesis
    proof (cases "searchRows items [] Map.empty")
      case (Inl p)
      with Inr sh t1 answersBatch_stop [OF f m all] show ?thesis
        by (intro exI [of _ "[first # others]"]) (simp add: Let_def)
    next
      case rows2: (Inr rows2)
      from Cons.IH [of rows2 o2 w2] obtain blocks where
        t2: "trace (snd (snd (searchResponse_loop sdk queries rows2 o2 w2))) =
               trace w2 @ concat blocks"
        and s2: "answersBatch queries (isl (fst (searchResponse_loop sdk queries rows2 o2 w2))) blocks"
        by blast
      with Inr rows2 sh t1 answersBatch_Cons [OF f m all s2] show ?thesis
        by (intro exI [of _ "(first # others) # blocks"]) (simp add: Let_def)
    qed
  qed
qed

lemma queryResponse_requests_sent:
  "\<exists>blocks. trace (snd (snd (queryResponse_requests sdk tsdbReq queries results o1 w))) =
              trace w @ concat blocks \<and>
            answersBatch queries
              (isl (fst (queryResponse_requests sdk tsdbReq queries results o1 w))) blocks"
proof (induction queries arbitrary: results o1 w)
  case Nil
  show ?case by (intro exI [of _ "[]"]) (simp add: answersBatch_Nil)
next
  case (Cons q queries)
  let ?ts = "ModelJson q"
  let ?o2 = "o1\<lparr>metricsClient := (metricsClient o1)\<lparr>mc_region := StringToRegion sdk (ts_Region ?ts)\<rparr>\<rparr>"
  let ?request = "\<lparr>sm_CompartmentId = Some (ts_Compartment ?ts),
                   sm_SummarizeMetricsDataDetails = queryResponse_req tsdbReq ?ts\<rparr>"
  let ?r = "SummarizeMetricsData sdk (metricsClient ?o2) ?request (cloud w)"
  let ?ev = "SummarizeMetricsDataCall (metricsClient ?o2) ?request"
  let ?w2 = "\<lparr>cloud = snd ?r, trace = trace w @ [?ev]\<rparr>"
  have f: "opensQuery ?ev" by (simp add: opensQuery_def)
  have m: "list_all (\<lambda>ev. \<not> opensQuery ev) []" by simp
  have all: "list_all (\<lambda>ev. isMetricsCall ev \<and> resourceGroupFilter ev = requestedFilter ?ts) (?ev # [])"
    by (simp add: isMetricsCall_def resourceGroupFilter_def reqDetails_filter)
  show ?case
  proof (cases "fst ?r")
    case (Inl e)
    with answersBatch_stop [OF f m all] show ?thesis
      by (intro exI [of _ "[[?ev]]"]) (simp add: Let_def)
  next
    case (Inr res)
    from Cons.IH [of "results @ [\<lparr>ociRes = res, query = q, err = None\<rparr>]" ?o2 ?w2] obtain blocks where
      t2: "trace (snd (snd (queryResponse_requests sdk tsdbReq queries
                              (results @ [\<lparr>ociRes = res, query = q, err = None\<rparr>]) ?o2 ?w2))) =
             trace ?w2 @ concat blocks"
      and s2: "answersBatch queries
                 (isl (fst (queryResponse_requests sdk tsdbReq queries
                              (results @ [\<lparr>ociRes = res, query = q, err = None\<rparr>]) ?o2 ?w2))) blocks"
      by blast
    with Inr answersBatch_Cons [OF f m all s2] show ?thesis
      by (intro exI [of _ "[?ev] # blocks"]) (simp add: Let_def)
  qed
qed

lemma answersBatch_failed: "answersBatch queries failed blocks \<Longrightarrow> answersBatch queries True blocks"
  by (simp add: answersBatch_def)

text \<open>Claim C10. For \<^verbatim>\<open>dimensionResponse\<close>, \<^verbatim>\<open>searchResponse\<close> and
  \<^verbatim>\<open>queryResponse\<close>, and for every batch: the requests sent out are, query by query and
  in the order of the batch, the requests made for the first query, then those made for
  the second, and so on (a block opens with the first request of its query; the further
  ones of a block ask for further pages); each request is a metrics request whose
  resource-group filter is absent when the \<open>ResourceGroup\<close> of its own query is exactly
  \<open>"NoResourceGroup"\<close>, and is that value (the empty string too) otherwise; a batch that is
  not empty sends a request; and unless the handler fails, every query of the batch has
  its block.\<close>

theorem NoResourceGroup_sentinel:
  "handler \<in> {dimensionResponse, searchResponse, queryResponse} \<Longrightarrow>
   \<exists>blocks. trace (snd (snd (handler sdk tsdbReq o1 w))) = trace w @ concat blocks \<and>
            perQuery (Queries tsdbReq) blocks \<and>
            (Queries tsdbReq = [] \<or> blocks \<noteq> []) \<and>
            (isl (fst (handler sdk tsdbReq o1 w)) \<or> length blocks = length (Queries tsdbReq))"
proof -
  assume "handler \<in> {dimensionResponse, searchResponse, queryResponse}"
  then consider "handler = dimensionResponse" | "handler = searchResponse" | "handler = queryResponse"
    by blast
  then have "\<exists>blocks. trace (snd (snd (handler sdk tsdbReq o1 w))) = trace w @ concat blocks \<and>
                      answersBatch (Queries tsdbReq) (isl (fst (handler sdk tsdbReq o1 w))) blocks"
  proof cases
    case 1
    from dimensionResponse_loop_sent [of sdk "Queries tsdbReq" "[]" o1 w] obtain blocks where
      "trace (snd (snd (dimensionResponse_loop sdk (Queries tsdbReq) [] o1 w))) = trace w @ concat blocks"
      "answersBatch (Queries tsdbReq)
         (isl (fst (dimensionResponse_loop sdk (Queries tsdbReq) [] o1 w))) blocks"
      by blast
    then show ?thesis unfolding 1
      by (intro exI [of _ blocks]) (auto simp: dimensionResponse_def split: prod.splits sum.splits)
  next
    case 2
    from searchResponse_loop_sent [of sdk "Queries tsdbReq" "[]" o1 w] obtain blocks where
      "trace (snd (snd (searchResponse_loop sdk (Queries tsdbReq) [] o1 w))) = trace w @ concat blocks"
      "answersBatch (Queries tsdbReq)
         (isl (fst (searchResponse_loop sdk (Queries tsdbReq) [] o1 w))) blocks"
      by blast
    then show ?thesis unfolding 2
      by (intro exI [of _ blocks]) (auto simp: searchResponse_def split: prod.splits sum.splits)
  next
    case 3
    from queryResponse_requests_sent [of sdk tsdbReq "Queries tsdbReq" "[]" o1 w] obtain blocks where
      "trace (snd (snd (queryResponse_requests sdk tsdbReq (Queries tsdbReq) [] o1 w))) =
         trace w @ concat blocks"
      "answersBatch (Queries tsdbReq)
         (isl (fst (queryResponse_requests sdk tsdbReq (Queries tsdbReq) [] o1 w))) blocks"
      by blast
    then show ?thesis unfolding 3
      by (intro exI [of _ blocks])
         (auto simp: queryResponse_def split: prod.splits sum.splits dest: answersBatch_failed)
  qed
  then show ?thesis
    unfolding answersBatch_def by blast
qed

text \<open>The theorem at a batch of three main queries whose resource groups are \<open>rg1\<close>, the
  sentinel and the empty string, all answered: the three requests carry the filters
  \<open>rg1\<close>, none, and the empty string.\<close>

theorem NoResourceGroup_sentinel_witness:
  "queryResponse \<in> {dimensionResponse, searchResponse, queryResponse} \<and>
   (\<exists>blocks. trace (snd (snd (queryResponse (sdkSummarize noData) sentinelBatch NewOCIDatasource
                                 \<lparr>cloud = 0, trace = []\<rparr>))) = [] @ concat blocks \<and>
             perQuery (Queries sentinelBatch) blocks \<and> length blocks = 3) \<and>
   map resourceGroupFilter
     (trace (snd (snd (queryResponse (sdkSummarize noData) sentinelBatch NewOCIDatasource
                         \<lparr>cloud = 0, trace = []\<rparr>)))) = [Some ''rg1'', None, Some []]"
proof -
  have h: "queryResponse \<in> {dimensionResponse, searchResponse, queryResponse :: nat sdk \<Rightarrow> _}"
    by simp
  have ok: "\<not> isl (fst (queryResponse (sdkSummarize noData) sentinelBatch NewOCIDatasource
                          \<lparr>cloud = 0, trace = []\<rparr>))"
    by (simp add: queryResponse_def sentinelBatch_def batch_def sdkSummarize_def noData_def
        sdkPages_def Let_def)
  have len: "length (Queries sentinelBatch) = 3" by (simp add: sentinelBatch_def batch_def)
  have filters: "map resourceGroupFilter
     (trace (snd (snd (queryResponse (sdkSummarize noData) sentinelBatch NewOCIDatasource
                         \<lparr>cloud = 0, trace = []\<rparr>)))) = [Some ''rg1'', None, Some []]"
    by (simp add: queryResponse_def sentinelBatch_def batch_def sdkSummarize_def noData_def
        sdkPages_def Let_def resourceGroupFilter_def queryResponse_req_def grafanaRequest_def)
  from NoResourceGroup_sentinel [OF h, of "sdkSummarize noData" sentinelBatch NewOCIDatasource
      "\<lparr>cloud = 0, trace = []\<rparr>"] ok len
  have "\<exists>blocks. trace (snd (snd (queryResponse (sdkSummarize noData) sentinelBatch NewOCIDatasource
                                 \<lparr>cloud = 0, trace = []\<rparr>))) = [] @ concat blocks \<and>
             perQuery (Queries sentinelBatch) blocks \<and> length blocks = 3"
    by auto
  with h filters show ?thesis by blast
qed

text \<open>Claim C4 on the code. Against an identity service that serves a listing with an
  active compartment whose parent chain does not reach the tenancy (its parent, or a
  parent further up, is inactive or not listed, so it is never resolved),
  \<^verbatim>\<open>getCompartments\<close> does not return: no pass of the name-resolution loop resolves
  that compartment, the loop condition
  \<^verbatim>\<open>len(mapFromIdToFullCmptName) < len(mapFromIdToName)\<close> stays true, and no cache is
  rebuilt.\<close>

theorem getCompartments_never_returns:
  assumes srv: "compartmentsServed sdk tenancyName pages N"
    and rec: "recordActive (listed pages N) ([t \<mapsto> tenancyName], [t \<mapsto> []]) = Inr (names, parents)"
    and act: "c \<in> activeIds (listed pages N)"
    and bad: "\<not> reachesRoot parents t c"
  shows "getCompartments sdk ro region t o1 \<lparr>cloud = 0, trace = tr\<rparr> = None"
proof -
  note m = recorded_maps [OF rec]
  from act m(1,2) have "c \<in> dom parents" by simp
  with bad have nt: "\<not> finiteTree parents t" by (auto simp: finiteTree_def)
  have start: "dom [t \<mapsto> go_lookup names t @ tenancy_suffix] \<subseteq>
               {c \<in> dom parents. reachesRoot parents t c}"
    using m(4) by (simp add: reachesRoot.root)
  have d: "resolve_loop names parents t (resolveOrder ro) 0
             [t \<mapsto> go_lookup names t @ tenancy_suffix] = None"
    by (rule resolve_loop_diverges [OF m(3) m(2) [symmetric] nt start])
  from getCompartments_served [OF srv rec, of ro region o1 tr]
  obtain o2 where "\<exists>w2. getCompartments sdk ro region t o1 \<lparr>cloud = 0, trace = tr\<rparr> =
           map_option (\<lambda>full. (Inr (invert full (invertOrder ro)), o2, w2))
             (resolve_loop names parents t (resolveOrder ro) 0
                [t \<mapsto> go_lookup names t @ tenancy_suffix])" ..
  then obtain w2 where "getCompartments sdk ro region t o1 \<lparr>cloud = 0, trace = tr\<rparr> =
           map_option (\<lambda>full. (Inr (invert full (invertOrder ro)), o2, w2))
             (resolve_loop names parents t (resolveOrder ro) 0
                [t \<mapsto> go_lookup names t @ tenancy_suffix])" ..
  then show ?thesis by (simp only: d option.map)
qed

text \<open>The theorem at the listing \<open>orphan\<close>, served in one page: \<open>c1\<close> is active, its
  parent \<open>p\<close> is inactive, hence not recorded.\<close>

theorem getCompartments_never_returns_witness:
  "compartmentsServed (sdkIdentity ''T'' (onePage orphan)) ''T'' (onePage orphan) 0 \<and>
   recordActive (listed (onePage orphan) 0) ([''t'' \<mapsto> ''T''], [''t'' \<mapsto> []]) =
     Inr ([''t'' \<mapsto> ''T'', ''c1'' \<mapsto> ''a''], [''t'' \<mapsto> [], ''c1'' \<mapsto> ''p'']) \<and>
   ''c1'' \<in> activeIds (listed (onePage orphan) 0) \<and>
   \<not> reachesRoot [''t'' \<mapsto> [], ''c1'' \<mapsto> ''p''] ''t'' ''c1'' \<and>
   getCompartments (sdkIdentity ''T'' (onePage orphan)) smallOrder ''us-ashburn-1'' ''t''
     NewOCIDatasource \<lparr>cloud = 0, trace = []\<rparr> = None"
proof -
  let ?parents = "[''t'' \<mapsto> [], ''c1'' \<mapsto> ''p'']"
  have rec: "recordActive (listed (onePage orphan) 0) ([''t'' \<mapsto> ''T''], [''t'' \<mapsto> []]) =
             Inr ([''t'' \<mapsto> ''T'', ''c1'' \<mapsto> ''a''], ?parents)"
    by (simp add: listed_onePage orphan_def cmpt_def)
  have act: "''c1'' \<in> activeIds (listed (onePage orphan) 0)"
    by (simp add: listed_onePage orphan_def cmpt_def activeIds_Cons activeIds_Nil)
  have bad: "\<not> reachesRoot ?parents ''t'' ''c1''"
  proof
    assume "reachesRoot ?parents ''t'' ''c1''"
    then have "reachesRoot ?parents ''t'' ''p''"
      by (cases rule: reachesRoot.cases) (simp_all split: if_splits)
    then show False
      by (cases rule: reachesRoot.cases) (simp_all split: if_splits)
  qed
  have "getCompartments (sdkIdentity ''T'' (onePage orphan)) smallOrder ''us-ashburn-1'' ''t''
          NewOCIDatasource \<lparr>cloud = 0, trace = []\<rparr> = None"
    by (rule getCompartments_never_returns [OF served_onePage rec act bad])
  with served_onePage rec act bad show ?thesis by (intro conjI)
qed

subsection \<open>compartmentsResponse\<close>

lemma getCompartments_timeCacheUpdated:
  "getCompartments sdk ro region t o1 w = Some (r, o2, w2) \<Longrightarrow>
   timeCacheUpdated o2 = timeCacheUpdated o1"
  by (auto simp: getCompartments_def Let_def split: sum.splits option.splits prod.splits)

lemma compartmentsResponse_timeCacheUpdated:
  "compartmentsResponse sdk ro now tsdbReq o1 w = Some (r, o2, w2) \<Longrightarrow>
   timeCacheUpdated o2 = timeCacheUpdated o1"
  by (auto simp: compartmentsResponse_def Let_def dest: getCompartments_timeCacheUpdated
      split: list.splits if_splits option.splits sum.splits prod.splits)

lemma sdkIdentity_calls:
  "GetTenancy (sdkIdentity tenancyName pages) client tenancyId n = (Inr \<lparr>gt_Name = Some tenancyName\<rparr>, n)"
  "ListCompartments (sdkIdentity tenancyName pages) client req n = (Inr (pages n), Suc n)"
  "StringToRegion (sdkIdentity tenancyName pages) region = region"
  by (simp_all add: sdkIdentity_def sdkPages_def)

lemma listCompartments_loop_empty:
  "listCompartments_loop (sdkIdentity tenancyName (onePage [])) client rootCompartment page maps w =
   Some (Inr maps,
         \<lparr>cloud = Suc (cloud w),
          trace = trace w @
            [ListCompartmentsCall client
               \<lparr>lc_CompartmentId = Some rootCompartment, lc_Page = page, lc_AccessLevel = ''ANY'',
                lc_CompartmentIdInSubtree = Some True\<rparr>]\<rparr>)"
  by (subst listCompartments_loop.simps) (simp add: sdkIdentity_calls onePage_def Let_def)

lemma resolve_loop_tenancy:
  "resolve_loop [t \<mapsto> tenancyName] parents t order 0 [t \<mapsto> label] = Some [t \<mapsto> label]"
  by (subst resolve_loop.simps) simp

lemma getCompartments_empty:
  "getCompartments (sdkIdentity tenancyName (onePage [])) ro region t o1 w =
   Some (Inr (invert [t \<mapsto> tenancyName @ tenancy_suffix] (invertOrder ro)),
         o1\<lparr>identityClient := (identityClient o1)\<lparr>ic_region := region\<rparr>\<rparr>,
         \<lparr>cloud = Suc (cloud w),
          trace = trace w @
            [GetTenancyCall (identityClient o1) t,
             ListCompartmentsCall ((identityClient o1)\<lparr>ic_region := region\<rparr>)
               \<lparr>lc_CompartmentId = Some t, lc_Page = None, lc_AccessLevel = ''ANY'',
                lc_CompartmentIdInSubtree = Some True\<rparr>]\<rparr>)"
  by (simp add: getCompartments_def Let_def sdkIdentity_calls listCompartments_loop_empty
      resolve_loop_tenancy go_lookup_def)

lemma compartmentsResponse_empty:
  "timeCacheUpdated o1 = 0 \<Longrightarrow>
   compartmentsResponse (sdkIdentity tenancyName (onePage [])) ro now compartmentsRequest o1 w =
   Some (Inr (lookupResponse ''compartments'' [''text'', ''text'']
                (compartmentsRows (invert [''ocid1.tenancy'' \<mapsto> tenancyName @ tenancy_suffix] (invertOrder ro))
                   (rowsOrder ro))),
         o1\<lparr>identityClient := (identityClient o1)\<lparr>ic_region := ''us-ashburn-1''\<rparr>,
            nameToOCID := invert [''ocid1.tenancy'' \<mapsto> tenancyName @ tenancy_suffix] (invertOrder ro)\<rparr>,
         \<lparr>cloud = Suc (cloud w),
          trace = trace w @
            [GetTenancyCall (identityClient o1) ''ocid1.tenancy'',
             ListCompartmentsCall ((identityClient o1)\<lparr>ic_region := ''us-ashburn-1''\<rparr>)
               \<lparr>lc_CompartmentId = Some ''ocid1.tenancy'', lc_Page = None, lc_AccessLevel = ''ANY'',
                lc_CompartmentIdInSubtree = Some True\<rparr>]\<rparr>)"
  by (simp add: compartmentsResponse_def compartmentsRequest_def batch_def grafanaRequest_def
      Let_def IsZero_def getCompartments_empty)

text \<open>Claim C5 on the code. No request ever changes \<open>timeCacheUpdated\<close>:
  \<^verbatim>\<open>compartmentsResponse\<close> either does not return or leaves the field as it found it.
  So the field keeps the zero time it starts with, \<^verbatim>\<open>IsZero\<close> is true on every
  request, and every request rebuilds the cache: of two compartments requests in a row on
  a datasource with its clients, read at any two clock times \<open>now1\<close> and \<open>now2\<close> (so also
  one second apart), the first leaves \<open>timeCacheUpdated\<close> at the zero time and the second
  calls \<^verbatim>\<open>GetTenancy\<close> and \<^verbatim>\<open>ListCompartments\<close> again.\<close>

theorem compartmentsResponse_rebuilds_always:
  "map_option (\<lambda>r. timeCacheUpdated (fst (snd r))) (compartmentsResponse sdk ro now tsdbReq o1 w) \<in>
     {None, Some (timeCacheUpdated o1)} \<and>
   twoCompartmentsRequests (sdkIdentity ''T'' (onePage [])) ro now1 now2 compartmentsRequest
     cachedDatasource \<lparr>cloud = 0, trace = []\<rparr> =
   Some (0,
         [GetTenancyCall \<lparr>ic_config = Some DefaultConfig, ic_region = ''us-ashburn-1''\<rparr> ''ocid1.tenancy'',
          ListCompartmentsCall \<lparr>ic_config = Some DefaultConfig, ic_region = ''us-ashburn-1''\<rparr>
            \<lparr>lc_CompartmentId = Some ''ocid1.tenancy'', lc_Page = None, lc_AccessLevel = ''ANY'',
             lc_CompartmentIdInSubtree = Some True\<rparr>])"
proof
  show "map_option (\<lambda>r. timeCacheUpdated (fst (snd r))) (compartmentsResponse sdk ro now tsdbReq o1 w) \<in>
          {None, Some (timeCacheUpdated o1)}"
  proof (cases "compartmentsResponse sdk ro now tsdbReq o1 w")
    case None
    then show ?thesis by simp
  next
    case (Some res)
    obtain r o2 w2 where "res = (r, o2, w2)" by (cases res) auto
    with Some compartmentsResponse_timeCacheUpdated [of sdk ro now tsdbReq o1 w r o2 w2]
    show ?thesis by simp
  qed
  have z: "timeCacheUpdated cachedDatasource = 0"
    by (simp add: cachedDatasource_def NewOCIDatasource_def)
  show "twoCompartmentsRequests (sdkIdentity ''T'' (onePage [])) ro now1 now2 compartmentsRequest
     cachedDatasource \<lparr>cloud = 0, trace = []\<rparr> =
   Some (0,
         [GetTenancyCall \<lparr>ic_config = Some DefaultConfig, ic_region = ''us-ashburn-1''\<rparr> ''ocid1.tenancy'',
          ListCompartmentsCall \<lparr>ic_config = Some DefaultConfig, ic_region = ''us-ashburn-1''\<rparr>
            \<lparr>lc_CompartmentId = Some ''ocid1.tenancy'', lc_Page = None, lc_AccessLevel = ''ANY'',
             lc_CompartmentIdInSubtree = Some True\<rparr>])"
    by (simp add: twoCompartmentsRequests_def compartmentsResponse_empty z)
       (simp add: cachedDatasource_def NewOCIDatasource_def)
qed

end
